theory Spec2Isabelle
  imports Complex_Main "HOL-Library.AList"
begin

section \<open>Numbers and errors\<close>

text \<open>
  Python floats are modelled as reals. In the analysis rounding is abstracted away; the
  amplitude sweep is computed in double precision (see \<open>fl\<close> below), because its
  values depend on the rounding. The one place where
  the scripts can leave the finite numbers is the division by the fitted frequency in
  \<^verbatim>\<open>15b_Power_Rabi_E_to_F.py\<close>: numpy does not raise on a division by zero, it returns
  an infinity or a NaN. Both are the single value \<open>NonFinite\<close> here, because every later
  operation of the script treats them alike: a product with a finite number stays
  non-finite, and \<^verbatim>\<open>np.abs(x) < c\<close> is False.
\<close>

datatype pyfloat = Fin real | NonFinite

definition fdiv :: "real \<Rightarrow> real \<Rightarrow> pyfloat" where
  "fdiv x y = (if y = 0 then NonFinite else Fin (x / y))"

fun fmul :: "real \<Rightarrow> pyfloat \<Rightarrow> pyfloat" where
  "fmul a (Fin x) = Fin (a * x)"
| "fmul a NonFinite = NonFinite"

fun fabs_lt :: "pyfloat \<Rightarrow> real \<Rightarrow> bool" where
  "fabs_lt (Fin x) c = (\<bar>x\<bar> < c)"
| "fabs_lt NonFinite c = False"

datatype error =
    KeyError | ValueError | AttributeError | ZeroDivisionError | OverflowError
  | Exception | FetchError

subsection \<open>Double precision\<close>

text \<open>
  A double has a significand of 53 bits, and every arithmetic operation returns the
  double nearest to the exact result, the one with the even significand on a tie. The
  range of the exponent is not modelled: no overflow, no subnormal numbers.
\<close>

definition rne :: "real \<Rightarrow> int" where
  "rne y =
     (let f = \<lfloor>y\<rfloor> in
      if y - of_int f < 1 / 2 then f
      else if 1 / 2 < y - of_int f then f + 1
      else if even f then f else f + 1)"

definition fl :: "real \<Rightarrow> real" where
  "fl x =
     (if x = 0 then 0
      else let e = \<lfloor>log 2 \<bar>x\<bar>\<rfloor> - 52
           in of_int (rne (x / 2 powr of_int e)) * 2 powr of_int e)"

section \<open>The device state (QuAM)\<close>

text \<open>
  The classes of the device state come from the external library; only the attributes
  that the scripts read or write are kept. A qubit's name is its key in
  \<^verbatim>\<open>machine.qubits\<close>.
\<close>

record pulse =
  amplitude :: real
  alpha :: real
  anharmonicity :: real
  length_ns :: int
  axis_angle :: real
  digital_marker :: "string option"

record xy_channel =
  xy_name :: string
  xy_intermediate_frequency :: real
  operations :: "(string \<times> pulse) list"

record resonator_channel =
  resonator_name :: string
  resonator_intermediate_frequency :: real

record qubit =
  name :: string
  xy :: xy_channel
  resonator :: resonator_channel
  qubit_anharmonicity :: real
  GEF_frequency_shift :: "real option"

record QuAM =
  qubits :: "(string \<times> qubit) list"
  active_qubit_names :: "string list"
  thermalization_time :: real

section \<open>Node parameters and the amplitude sweep\<close>

record Parameters =
  qubits_param :: "string list option"
  num_averages :: int
  operation :: string
  min_amp_factor :: real
  max_amp_factor :: real
  amp_factor_step :: real
  simulate :: bool
  timeout :: int

definition default_Parameters :: Parameters where
  "default_Parameters =
     \<lparr>qubits_param = Some [''q1''], num_averages = 200, operation = ''x180'',
      min_amp_factor = 0, max_amp_factor = 3 / 2, amp_factor_step = 5 / 1000,
      simulate = False, timeout = 100\<rparr>"

text \<open>
  \<^verbatim>\<open>machine.qubits[q]\<close>: a missing key raises; the component found answers to the
  key as its name.
\<close>

definition get_qubit :: "QuAM \<Rightarrow> string \<Rightarrow> error + qubit" where
  "get_qubit m k =
     (case map_of (qubits m) k of None \<Rightarrow> Inl KeyError | Some q \<Rightarrow> Inr (q\<lparr>name := k\<rparr>))"

fun get_all :: "QuAM \<Rightarrow> string list \<Rightarrow> error + qubit list" where
  "get_all m [] = Inr []"
| "get_all m (k # ks) =
     (case get_qubit m k of
        Inl e \<Rightarrow> Inl e
      | Inr q \<Rightarrow> (case get_all m ks of Inl e \<Rightarrow> Inl e | Inr qs \<Rightarrow> Inr (q # qs)))"

text \<open>
  The qubits of the node: the active ones when the parameter is \<^verbatim>\<open>None\<close>, the named
  ones otherwise (the comparison of the list with the empty string is False for every
  list). The active qubits are the qubits of the machine under the active names. A qubit
  without an optimised readout shift gets the shift 0; the shift is kept with the qubits of
  the node, it is no field of the saved state.
\<close>

definition ensure_GEF :: "qubit \<Rightarrow> qubit" where
  "ensure_GEF q =
     (if GEF_frequency_shift q = None then q\<lparr>GEF_frequency_shift := Some 0\<rparr> else q)"

definition get_qubits :: "QuAM \<Rightarrow> Parameters \<Rightarrow> error + qubit list" where
  "get_qubits m p =
     (case get_all m (case qubits_param p of None \<Rightarrow> active_qubit_names m | Some ks \<Rightarrow> ks) of
        Inl e \<Rightarrow> Inl e
      | Inr qs \<Rightarrow> Inr (map ensure_GEF qs))"

text \<open>
  \<^verbatim>\<open>np.arange(start, stop, step)\<close> on Python floats. The length is the ceiling of
  \<^verbatim>\<open>(stop - start) / step\<close>, computed in doubles; a zero step raises in the division, a
  length beyond the index range raises, and a length that is not positive gives the empty
  array (memory limits are not modelled). The first value is \<^verbatim>\<open>start\<close>, the second
  \<^verbatim>\<open>start + step\<close>, and the value at every later index \<open>i\<close> is
  \<^verbatim>\<open>start + i * delta\<close>, where \<^verbatim>\<open>delta\<close> is the second value less the first, each
  operation rounded.
\<close>

definition arange :: "real \<Rightarrow> real \<Rightarrow> real \<Rightarrow> error + real list" where
  "arange start stop step =
     (if step = 0 then Inl ZeroDivisionError
      else
        let len = \<lceil>fl (fl (stop - start) / step)\<rceil> in
        if 2 ^ 63 < len then Inl OverflowError
        else
          let nxt = fl (start + step); delta = fl (nxt - start)
          in Inr (map (\<lambda>i. if i = 0 then start else if i = 1 then nxt
                           else fl (start + fl (real i * delta)))
                    [0..<nat len]))"

definition amps :: "Parameters \<Rightarrow> error + real list" where
  "amps p = arange (min_amp_factor p) (max_amp_factor p) (amp_factor_step p)"

text \<open>The range that the comment on the sweep asks for: \<open>[-2; 2)\<close>.\<close>

definition within_hardware_range :: "real list \<Rightarrow> bool" where
  "within_hardware_range as = list_all (\<lambda>a. - 2 \<le> a \<and> a < 2) as"

section \<open>Data analysis of the power Rabi script\<close>

text \<open>
  The oscillation fit is external; its result is read per qubit name, at the fit values
  \<^verbatim>\<open>f\<close> and \<^verbatim>\<open>phi\<close>.
\<close>

record fit_vals =
  fit_f :: real
  fit_phi :: real

text \<open>\<^verbatim>\<open>phi_fit - np.pi * (phi_fit > np.pi / 2)\<close>\<close>

definition adjust_phi :: "real \<Rightarrow> real" where
  "adjust_phi phi_fit = phi_fit - pi * of_bool (phi_fit > pi / 2)"

text \<open>\<^verbatim>\<open>float(1.0 * (np.pi - phi_fit) / (2 * np.pi * f_fit))\<close>, after the adjustment.\<close>

definition factor :: "real \<Rightarrow> real \<Rightarrow> pyfloat" where
  "factor f_fit phi_fit = fdiv (1 * (pi - adjust_phi phi_fit)) (2 * pi * f_fit)"

definition lookup_operation :: "qubit \<Rightarrow> string \<Rightarrow> error + pulse" where
  "lookup_operation q opn =
     (case map_of (operations (xy q)) opn of None \<Rightarrow> Inl KeyError | Some p \<Rightarrow> Inr p)"

definition new_pi_amp :: "qubit \<Rightarrow> string \<Rightarrow> fit_vals \<Rightarrow> error + pyfloat" where
  "new_pi_amp q opn fv =
     (case lookup_operation q opn of
        Inl e \<Rightarrow> Inl e
      | Inr p \<Rightarrow> Inr (fmul (amplitude p) (factor (fit_f fv) (fit_phi fv))))"

text \<open>The branch on \<^verbatim>\<open>np.abs(new_pi_amp) < 0.3\<close>, giving the stored \<^verbatim>\<open>Pi_amplitude\<close>.\<close>

text \<open>
  The stored value is a finite number on both branches: the comparison holds for no
  non-finite \<^verbatim>\<open>new_pi_amp\<close>, so the first branch stores a real.
\<close>

definition Pi_amplitude :: "pyfloat \<Rightarrow> real" where
  "Pi_amplitude a =
     (if fabs_lt a (3 / 10) then (case a of Fin x \<Rightarrow> x | NonFinite \<Rightarrow> 3 / 10) else 3 / 10)"

text \<open>
  The loop over the qubits fills the dictionary \<^verbatim>\<open>fit_results\<close>, keyed by qubit name;
  a missing operation raises out of the loop.
\<close>

fun fit_results :: "(string \<Rightarrow> fit_vals) \<Rightarrow> string \<Rightarrow> qubit list \<Rightarrow>
    (string \<times> real) list \<Rightarrow> error + (string \<times> real) list" where
  "fit_results fit opn [] acc = Inr acc"
| "fit_results fit opn (q # qs) acc =
     (case new_pi_amp q opn (fit (name q)) of
        Inl e \<Rightarrow> Inl e
      | Inr a \<Rightarrow> fit_results fit opn qs (AList.update (name q) (Pi_amplitude a) acc))"

section \<open>The QUA program of the power Rabi script\<close>

text \<open>
  The script builds a program of the external sequencing language. The statements it
  uses are the constructors of \<open>stmt\<close>; the two loops are the loop over the averages,
  \<^verbatim>\<open>for_(n, 0, n < n_avg, n + 1)\<close>, and the loop over the amplitude pre-factors,
  \<^verbatim>\<open>for_(*from_array(a, amps))\<close>. A pulse is played unscaled or scaled by the variable
  \<^verbatim>\<open>a\<close>. The variables \<^verbatim>\<open>npi\<close> and \<^verbatim>\<open>count\<close> are declared by the script and occur in
  no statement.
\<close>

datatype scale = Unscaled | Scaled_by_a

datatype stmt =
    Save_n
  | Update_frequency string real
  | Play string string scale
  | Align
  | Measure string string nat
  | Save_I nat
  | Save_Q nat
  | Wait string int
  | For_n int "stmt list"
  | For_a "real list" "stmt list"

text \<open>The readout shift of a qubit; the loop before the program has made it 0 when absent.\<close>

definition gef_shift :: "qubit \<Rightarrow> real" where
  "gef_shift q = (case GEF_frequency_shift q of None \<Rightarrow> 0 | Some g \<Rightarrow> g)"

text \<open>
  The external helper \<^verbatim>\<open>from_array\<close> turns the sweep into the bounds of a loop: it raises
  on an empty array, and otherwise the loop variable takes the values of the array in
  order (the fixed-point arithmetic of the variable is abstracted away).
\<close>

definition from_array :: "real list \<Rightarrow> error + real list" where
  "from_array as = (if as = [] then Inl Exception else Inr as)"

text \<open>
  \<^verbatim>\<open>machine.thermalization_time * u.ns\<close>: inside a program the unit \<^verbatim>\<open>u.ns\<close> is a quarter
  (a clock cycle is 4 ns), and the product is coerced to an integer.
\<close>

definition coerce_to_integer :: "real \<Rightarrow> int" where
  "coerce_to_integer x = (if 0 \<le> x then \<lfloor>x\<rfloor> else \<lceil>x\<rceil>)"

text \<open>
  The body of the amplitude loop for the qubit \<open>q\<close> at position \<open>i\<close> (lines 103 to 121).
\<close>

definition sweep_body :: "QuAM \<Rightarrow> string \<Rightarrow> nat \<Rightarrow> qubit \<Rightarrow> stmt list" where
  "sweep_body m opn i q =
     [Update_frequency (resonator_name (resonator q))
        (resonator_intermediate_frequency (resonator q) + gef_shift q),
      Update_frequency (xy_name (xy q)) (xy_intermediate_frequency (xy q)),
      Play (xy_name (xy q)) opn Unscaled,
      Update_frequency (xy_name (xy q)) (xy_intermediate_frequency (xy q) - qubit_anharmonicity q),
      Play (xy_name (xy q)) opn Scaled_by_a,
      Align,
      Measure (resonator_name (resonator q)) ''readout'' i,
      Save_I i,
      Save_Q i,
      Wait (resonator_name (resonator q)) (coerce_to_integer (thermalization_time m * (1 / 4)))]"

text \<open>
  The block of one qubit (lines 100 to 123). Building it calls \<^verbatim>\<open>from_array\<close>, so an empty
  sweep raises while the program is built, once there is a qubit. After that the library's
  \<^verbatim>\<open>play\<close> looks the operation up in the operations of the drive and raises when it is
  missing. The resonator is taken to have its \<^verbatim>\<open>readout\<close> operation.
\<close>

definition qubit_block ::
    "QuAM \<Rightarrow> string \<Rightarrow> int \<Rightarrow> real list \<Rightarrow> nat \<Rightarrow> qubit \<Rightarrow> error + stmt list" where
  "qubit_block m opn n_avg as i q =
     (case from_array as of
        Inl e \<Rightarrow> Inl e
      | Inr vals \<Rightarrow>
          (case lookup_operation q opn of
             Inl e \<Rightarrow> Inl e
           | Inr pl \<Rightarrow> Inr [For_n n_avg [Save_n, For_a vals (sweep_body m opn i q)], Align]))"

fun qubit_blocks ::
    "QuAM \<Rightarrow> string \<Rightarrow> int \<Rightarrow> real list \<Rightarrow> (nat \<times> qubit) list \<Rightarrow> error + stmt list" where
  "qubit_blocks m opn n_avg as [] = Inr []"
| "qubit_blocks m opn n_avg as ((i, q) # iqs) =
     (case qubit_block m opn n_avg as i q of
        Inl e \<Rightarrow> Inl e
      | Inr b \<Rightarrow>
          (case qubit_blocks m opn n_avg as iqs of
             Inl e \<Rightarrow> Inl e
           | Inr bs \<Rightarrow> Inr (b @ bs)))"

definition power_rabi ::
    "QuAM \<Rightarrow> string \<Rightarrow> int \<Rightarrow> real list \<Rightarrow> qubit list \<Rightarrow> error + stmt list" where
  "power_rabi m opn n_avg as qs = qubit_blocks m opn n_avg as (enumerate 0 qs)"

subsection \<open>Running a program\<close>

text \<open>
  What the control hardware does with a program is outside the repository. It is modelled
  as far as the script relies on it. An element keeps the frequency last set for it, and
  a pulse is played at the current frequency of its element. Every element has a clock of
  its own: a pulse, a measurement or a wait on an element starts at the clock of the
  element and advances it by its duration, so different elements run in parallel.
  \<^verbatim>\<open>align()\<close> sets the clocks of all elements of the program to the latest of them. By
  default the compiler aligns the elements used in a loop at the start of every iteration;
  a compiler flag switches this off, which is \<open>implicit_align\<close>. A measurement assigns
  the two demodulated values to the variables, and a save appends a variable to its
  stream; the demodulated values of the \<open>k\<close>-th measurement of a run are \<open>readout sq k\<close>.
  The durations of the pulses belong to the configuration: \<open>pulse_length sq el op\<close>.
  What was played and measured is recorded in \<open>events\<close>, with the frequency, the
  amplitude scale, the start and the duration. Times are counted in clock cycles, the unit
  of the argument of a wait.
\<close>

record sequencer =
  readout :: "nat \<Rightarrow> real \<times> real"
  implicit_align :: bool
  pulse_length :: "string \<Rightarrow> string \<Rightarrow> nat"

datatype event =
    Pulse string string "real option" "real option" nat nat
  | Readout string string "real option" nat nat

record qua_state =
  frequency :: "string \<Rightarrow> real option"
  clock :: "string \<Rightarrow> nat"
  var_n :: int
  var_a :: real
  var_I :: "nat \<Rightarrow> real"
  var_Q :: "nat \<Rightarrow> real"
  n_st :: "int list"
  I_st :: "nat \<Rightarrow> real list"
  Q_st :: "nat \<Rightarrow> real list"
  events :: "event list"
  shots :: nat

definition initial_state :: qua_state where
  "initial_state =
     \<lparr>frequency = (\<lambda>_. None), clock = (\<lambda>_. 0), var_n = 0, var_a = 0,
      var_I = (\<lambda>_. 0), var_Q = (\<lambda>_. 0),
      n_st = [], I_st = (\<lambda>_. []), Q_st = (\<lambda>_. []), events = [], shots = 0\<rparr>"

fun stmt_elements :: "stmt \<Rightarrow> string list" where
  "stmt_elements Save_n = []"
| "stmt_elements (Update_frequency el f) = [el]"
| "stmt_elements (Play el opn sc) = [el]"
| "stmt_elements Align = []"
| "stmt_elements (Measure el pl i) = [el]"
| "stmt_elements (Save_I i) = []"
| "stmt_elements (Save_Q i) = []"
| "stmt_elements (Wait el t) = [el]"
| "stmt_elements (For_n k body) = concat (map stmt_elements body)"
| "stmt_elements (For_a as body) = concat (map stmt_elements body)"

definition align_time :: "(string \<Rightarrow> nat) \<Rightarrow> string list \<Rightarrow> nat" where
  "align_time c els = fold (\<lambda>e t. max (c e) t) els 0"

definition align_elements :: "string list \<Rightarrow> qua_state \<Rightarrow> qua_state" where
  "align_elements els s =
     s\<lparr>clock := (\<lambda>e. if e \<in> set els then align_time (clock s) els else clock s e)\<rparr>"

definition loop_align :: "sequencer \<Rightarrow> stmt list \<Rightarrow> qua_state \<Rightarrow> qua_state" where
  "loop_align sq body s =
     (if implicit_align sq then align_elements (concat (map stmt_elements body)) s else s)"

fun exec :: "sequencer \<Rightarrow> string list \<Rightarrow> stmt \<Rightarrow> qua_state \<Rightarrow> qua_state" where
  "exec sq els Save_n s = s\<lparr>n_st := n_st s @ [var_n s]\<rparr>"
| "exec sq els (Update_frequency el f) s = s\<lparr>frequency := (frequency s)(el := Some f)\<rparr>"
| "exec sq els (Play el opn sc) s =
     s\<lparr>events := events s @
        [Pulse el opn (frequency s el)
           (case sc of Unscaled \<Rightarrow> None | Scaled_by_a \<Rightarrow> Some (var_a s))
           (clock s el) (pulse_length sq el opn)],
       clock := (clock s)(el := clock s el + pulse_length sq el opn)\<rparr>"
| "exec sq els Align s = align_elements els s"
| "exec sq els (Measure el pl i) s =
     s\<lparr>var_I := (var_I s)(i := fst (readout sq (shots s))),
       var_Q := (var_Q s)(i := snd (readout sq (shots s))),
       events := events s @
         [Readout el pl (frequency s el) (clock s el) (pulse_length sq el pl)],
       clock := (clock s)(el := clock s el + pulse_length sq el pl),
       shots := Suc (shots s)\<rparr>"
| "exec sq els (Save_I i) s = s\<lparr>I_st := (I_st s)(i := I_st s i @ [var_I s i])\<rparr>"
| "exec sq els (Save_Q i) s = s\<lparr>Q_st := (Q_st s)(i := Q_st s i @ [var_Q s i])\<rparr>"
| "exec sq els (Wait el t) s = s\<lparr>clock := (clock s)(el := clock s el + nat t)\<rparr>"
| "exec sq els (For_n k body) s =
     fold (\<lambda>j s'. fold (exec sq els) body (loop_align sq body (s'\<lparr>var_n := int j\<rparr>)))
       [0..<nat k] s"
| "exec sq els (For_a as body) s =
     fold (\<lambda>a s'. fold (exec sq els) body (loop_align sq body (s'\<lparr>var_a := a\<rparr>))) as s"

definition run :: "sequencer \<Rightarrow> stmt list \<Rightarrow> qua_state" where
  "run sq prog = fold (exec sq (concat (map stmt_elements prog))) prog initial_state"

text \<open>
  The events of one point of the sweep, for stating the order of a point: the operation
  on the drive at its intermediate frequency, then, when that pulse has ended, the scaled
  operation at the frequency less the anharmonicity, then the readout on the resonator,
  which starts no earlier than the scaled pulse ends.
\<close>

definition sweep_point :: "sequencer \<Rightarrow> string \<Rightarrow> qubit \<Rightarrow> real \<Rightarrow> event list \<Rightarrow> bool" where
  "sweep_point sq opn q a es =
     (\<exists>t1 t3.
        es =
          [Pulse (xy_name (xy q)) opn (Some (xy_intermediate_frequency (xy q))) None
             t1 (pulse_length sq (xy_name (xy q)) opn),
           Pulse (xy_name (xy q)) opn
             (Some (xy_intermediate_frequency (xy q) - qubit_anharmonicity q)) (Some a)
             (t1 + pulse_length sq (xy_name (xy q)) opn)
             (pulse_length sq (xy_name (xy q)) opn),
           Readout (resonator_name (resonator q)) ''readout''
             (Some (resonator_intermediate_frequency (resonator q) + gef_shift q))
             t3 (pulse_length sq (resonator_name (resonator q)) ''readout'')] \<and>
        t1 + pulse_length sq (xy_name (xy q)) opn + pulse_length sq (xy_name (xy q)) opn
          \<le> t3)"

subsection \<open>Stream processing\<close>

text \<open>
  \<^verbatim>\<open>buffer(k)\<close> cuts a stream into full vectors of \<open>k\<close> values, \<^verbatim>\<open>average()\<close> gives after
  every vector the mean of all vectors so far, \<^verbatim>\<open>save\<close> keeps the last item.
\<close>

function buffer :: "nat \<Rightarrow> 'a list \<Rightarrow> 'a list list" where
  "buffer k xs =
     (if k = 0 \<or> length xs < k then [] else take k xs # buffer k (drop k xs))"
  by pat_completeness auto
termination
  by (relation "measure (\<lambda>(k, xs). length xs)") auto

declare buffer.simps [simp del]

definition vector_mean :: "real list list \<Rightarrow> real list" where
  "vector_mean vs =
     (case vs of
        [] \<Rightarrow> []
      | v # _ \<Rightarrow> map (\<lambda>j. sum_list (map (\<lambda>w. w ! j) vs) / real (length vs))
                  [0..<length v])"

definition average :: "real list list \<Rightarrow> real list list" where
  "average vs = map (\<lambda>m. vector_mean (take (Suc m) vs)) [0..<length vs]"

definition save :: "'a list \<Rightarrow> 'a option" where
  "save xs = (if xs = [] then None else Some (last xs))"

text \<open>The saved results: \<^verbatim>\<open>n\<close>, and \<^verbatim>\<open>I{i + 1}\<close>, \<^verbatim>\<open>Q{i + 1}\<close> for the qubit at position \<open>i\<close>.\<close>

record result_handles =
  res_n :: "int option"
  res_I :: "nat \<Rightarrow> real list option"
  res_Q :: "nat \<Rightarrow> real list option"

definition stream_processing :: "real list \<Rightarrow> qua_state \<Rightarrow> result_handles" where
  "stream_processing as s =
     \<lparr>res_n = save (n_st s),
      res_I = (\<lambda>i. save (average (buffer (length as) (I_st s i)))),
      res_Q = (\<lambda>i. save (average (buffer (length as) (Q_st s i))))\<rparr>"

subsection \<open>The dataset and the data of the fit\<close>

text \<open>
  The external fetch builds the dataset from the saved results of the qubits, with the
  names of the qubits and the sweep as coordinates; a result without data is taken to
  raise. The script adds \<^verbatim>\<open>IQ_abs = sqrt(I**2 + Q**2)\<close> and the coordinate \<^verbatim>\<open>abs_amp\<close>, the
  amplitude of the operation times the sweep, for which a qubit without the operation
  raises.
\<close>

definition IQ_abs :: "real list \<Rightarrow> real list \<Rightarrow> real list" where
  "IQ_abs Is Qs = map (\<lambda>(x, y). sqrt (x\<^sup>2 + y\<^sup>2)) (zip Is Qs)"

fun fetch_all :: "(nat \<Rightarrow> real list option) \<Rightarrow> nat list \<Rightarrow> error + real list list" where
  "fetch_all h [] = Inr []"
| "fetch_all h (i # is) =
     (case h i of
        None \<Rightarrow> Inl FetchError
      | Some v \<Rightarrow> (case fetch_all h is of Inl e \<Rightarrow> Inl e | Inr vs \<Rightarrow> Inr (v # vs)))"

record rabi_dataset =
  ds_qubit :: "string list"
  ds_amp :: "real list"
  ds_I :: "real list list"
  ds_Q :: "real list list"

definition fetch_results_as_xarray ::
    "result_handles \<Rightarrow> qubit list \<Rightarrow> real list \<Rightarrow> error + rabi_dataset" where
  "fetch_results_as_xarray rh qs as =
     (case fetch_all (res_I rh) [0..<length qs] of
        Inl e \<Rightarrow> Inl e
      | Inr Is \<Rightarrow>
          (case fetch_all (res_Q rh) [0..<length qs] of
             Inl e \<Rightarrow> Inl e
           | Inr Qs \<Rightarrow> Inr \<lparr>ds_qubit = map name qs, ds_amp = as, ds_I = Is, ds_Q = Qs\<rparr>))"

fun abs_amp :: "string \<Rightarrow> real list \<Rightarrow> qubit list \<Rightarrow> error + real list list" where
  "abs_amp opn as [] = Inr []"
| "abs_amp opn as (q # qs) =
     (case lookup_operation q opn of
        Inl e \<Rightarrow> Inl e
      | Inr p \<Rightarrow>
          (case abs_amp opn as qs of
             Inl e \<Rightarrow> Inl e
           | Inr rows \<Rightarrow> Inr (map (\<lambda>a. amplitude p * a) as # rows)))"

text \<open>
  The array \<^verbatim>\<open>ds.IQ_abs\<close> that the script hands to the external oscillation fit, with its
  coordinates.
\<close>

record data_array =
  da_qubit :: "string list"
  da_amp :: "real list"
  da_abs_amp :: "real list list"
  da_values :: "real list list"

text \<open>
  Lines 143 to 172 up to the call of the fit: the program is executed, the results are
  fetched, and the dataset is completed.
\<close>

definition fitted_data ::
    "sequencer \<Rightarrow> string \<Rightarrow> qubit list \<Rightarrow> real list \<Rightarrow> stmt list \<Rightarrow> error + data_array" where
  "fitted_data sq opn qs as prog =
     (case fetch_results_as_xarray (stream_processing as (run sq prog)) qs as of
        Inl e \<Rightarrow> Inl e
      | Inr ds \<Rightarrow>
          (case abs_amp opn as qs of
             Inl e \<Rightarrow> Inl e
           | Inr rows \<Rightarrow>
               Inr \<lparr>da_qubit = ds_qubit ds, da_amp = ds_amp ds, da_abs_amp = rows,
                    da_values = map (\<lambda>(Is, Qs). IQ_abs Is Qs) (zip (ds_I ds) (ds_Q ds))\<rparr>))"

section \<open>Updating and saving the device state\<close>

definition ef_operation_name :: "string \<Rightarrow> string" where
  "ef_operation_name opn = ''EF_'' @ opn"

text \<open>
  One pass of the loop of the state update, on the qubit as it is in the machine: the
  operation is created from the fields of \<^verbatim>\<open>operation\<close> when it is absent (a new key goes
  to the end of the dictionary), and only its amplitude is assigned when it is there.
\<close>

definition update_operation :: "string \<Rightarrow> real \<Rightarrow> qubit \<Rightarrow> error + qubit" where
  "update_operation opn a q =
     (case map_of (operations (xy q)) (ef_operation_name opn) of
        None \<Rightarrow>
          (case map_of (operations (xy q)) opn of
             None \<Rightarrow> Inl KeyError
           | Some p \<Rightarrow>
               Inr (q\<lparr>xy := (xy q)\<lparr>operations :=
                 AList.update (ef_operation_name opn)
                   \<lparr>amplitude = a, alpha = alpha p, anharmonicity = anharmonicity p,
                    length_ns = length_ns p, axis_angle = 0,
                    digital_marker = digital_marker p\<rparr>
                   (operations (xy q))\<rparr>\<rparr>))
      | Some ef \<Rightarrow>
          Inr (q\<lparr>xy := (xy q)\<lparr>operations :=
            AList.update (ef_operation_name opn) (ef\<lparr>amplitude := a\<rparr>)
              (operations (xy q))\<rparr>\<rparr>))"

text \<open>
  The list of qubits holds references into the machine, so the loop changes the machine:
  the model finds the qubit of the machine by its name. A name missing from
  \<^verbatim>\<open>fit_results\<close> raises.
\<close>

fun update_state :: "QuAM \<Rightarrow> string \<Rightarrow> (string \<times> real) list \<Rightarrow> qubit list \<Rightarrow> error + QuAM" where
  "update_state m opn res [] = Inr m"
| "update_state m opn res (q # qs) =
     (case map_of (qubits m) (name q) of
        None \<Rightarrow> Inl KeyError
      | Some cur \<Rightarrow>
          (case map_of res (name q) of
             None \<Rightarrow> Inl KeyError
           | Some a \<Rightarrow>
               (case update_operation opn a cur of
                  Inl e \<Rightarrow> Inl e
                | Inr cur' \<Rightarrow>
                    update_state (m\<lparr>qubits := AList.update (name q) cur' (qubits m)\<rparr>)
                      opn res qs)))"

text \<open>
  The node at the end of the script: the outcomes, and the machine that
  \<^verbatim>\<open>node.save()\<close> writes.
\<close>

record node =
  outcomes :: "(string \<times> string) list"
  saved_machine :: QuAM

text \<open>
  The script from the parameters to the saved node. The oscillation fit is external:
  \<open>fit_osc\<close> is given the array \<^verbatim>\<open>ds.IQ_abs\<close> and returns the fit values per qubit name,
  or raises. In simulation the machine is saved as it is. Otherwise the program is
  executed, the data are fetched and fitted, the state is updated and the node is saved;
  an exception at any step ends the script before the node is saved.
\<close>

definition run_node ::
    "sequencer \<Rightarrow> QuAM \<Rightarrow> Parameters \<Rightarrow> (data_array \<Rightarrow> error + (string \<Rightarrow> fit_vals)) \<Rightarrow>
     error + node" where
  "run_node sq m p fit_osc =
     (case get_qubits m p of
        Inl e \<Rightarrow> Inl e
      | Inr qs \<Rightarrow>
          (case amps p of
             Inl e \<Rightarrow> Inl e
           | Inr as \<Rightarrow>
               (case power_rabi m (operation p) (num_averages p) as qs of
                  Inl e \<Rightarrow> Inl e
                | Inr prog \<Rightarrow>
                    if simulate p then Inr \<lparr>outcomes = [], saved_machine = m\<rparr>
                    else
                      (case fitted_data sq (operation p) qs as prog of
                         Inl e \<Rightarrow> Inl e
                       | Inr d \<Rightarrow>
                           (case fit_osc d of
                              Inl e \<Rightarrow> Inl e
                            | Inr fit \<Rightarrow>
                                (case fit_results fit (operation p) qs [] of
                                   Inl e \<Rightarrow> Inl e
                                 | Inr res \<Rightarrow>
                                     (case update_state m (operation p) res qs of
                                        Inl e \<Rightarrow> Inl e
                                      | Inr m' \<Rightarrow>
                                          Inr \<lparr>outcomes =
                                                 fold (\<lambda>q. AList.update (name q) ''successful'')
                                                   qs [],
                                               saved_machine = m'\<rparr>)))))))"

section \<open>The analysis of the cross-resonance phase correction\<close>

text \<open>
  A dataset, as far as \<^verbatim>\<open>analysis.py\<close> reads it: the data variables by name, in order, the
  string-valued coordinates by name, and the sizes of the dimensions. A dataset keeps the
  names of its data variables and of its coordinates apart.
\<close>

record Dataset =
  data_vars :: "(string \<times> real list) list"
  coords :: "(string \<times> string list) list"
  dims :: "(string \<times> nat) list"

text \<open>The values of a variable of a dataset: labels, numbers, or the positions of a dimension.\<close>

datatype label = Str string | Num real | Idx nat

record FitParameters =
  success :: bool

text \<open>\<^verbatim>\<open>sub in s\<close> and \<^verbatim>\<open>s.replace(old, new)\<close> on strings.\<close>

fun contains :: "string \<Rightarrow> string \<Rightarrow> bool" where
  "contains sub [] = (sub = [])"
| "contains sub (c # cs) = (take (length sub) (c # cs) = sub \<or> contains sub cs)"

function replace_str :: "string \<Rightarrow> string \<Rightarrow> string \<Rightarrow> string" where
  "replace_str old new s =
     (if old = [] then new @ concat (map (\<lambda>c. c # new) s)
      else if s = [] then []
      else if take (length old) s = old then new @ replace_str old new (drop (length old) s)
      else hd s # replace_str old new (tl s))"
  by pat_completeness auto
termination
  by (relation "measure (\<lambda>(old, new, s). length s)") auto

declare replace_str.simps [simp del]

text \<open>A dictionary from a comprehension: a repeated key keeps its place and takes the last value.\<close>

definition dict_of :: "('k \<times> 'v) list \<Rightarrow> ('k \<times> 'v) list" where
  "dict_of kvs = fold (\<lambda>(k, v). AList.update k v) kvs []"

definition assign :: "Dataset \<Rightarrow> (string \<times> real list) list \<Rightarrow> Dataset" where
  "assign ds d = ds\<lparr>data_vars := fold (\<lambda>(k, v). AList.update k v) d (data_vars ds)\<rparr>"

text \<open>
  \<^verbatim>\<open>fit.qubit_pair.values\<close>: the attribute is a coordinate of that name, or a data
  variable, or a dimension without coordinate, whose values are its positions; the
  coordinate is looked up first, which is the same for a dataset that keeps the names
  apart. Attributes of the dataset other than these are not modelled.
\<close>

definition qubit_pair_values :: "Dataset \<Rightarrow> error + label list" where
  "qubit_pair_values fit =
     (case map_of (coords fit) ''qubit_pair'' of
        Some qps \<Rightarrow> Inr (map Str qps)
      | None \<Rightarrow>
          (case map_of (data_vars fit) ''qubit_pair'' of
             Some v \<Rightarrow> Inr (map Num v)
           | None \<Rightarrow>
               (case map_of (dims fit) ''qubit_pair'' of
                  Some n \<Rightarrow> Inr (map Idx [0..<n])
                | None \<Rightarrow> Inl AttributeError)))"

definition extract_relevant_fit_parameters ::
    "Dataset \<Rightarrow> 'n \<Rightarrow> error + Dataset \<times> (label \<times> FitParameters) list" where
  "extract_relevant_fit_parameters fit nd =
     (case qubit_pair_values fit of
        Inl e \<Rightarrow> Inl e
      | Inr qps \<Rightarrow> Inr (fit, dict_of (map (\<lambda>qp. (qp, \<lparr>success = True\<rparr>)) qps)))"

definition fit_raw_data ::
    "Dataset \<Rightarrow> 'n \<Rightarrow> error + Dataset \<times> (label \<times> FitParameters) list" where
  "fit_raw_data ds nd =
     (let ds_fit = assign ds (dict_of
        (map (\<lambda>(col, v). (replace_str ''state'' ''bloch'' col, map (\<lambda>x. - 2 * x + 1) v))
           (filter (\<lambda>(col, v). contains ''state'' col) (data_vars ds))))
      in extract_relevant_fit_parameters ds_fit nd)"

section \<open>Example inputs\<close>

definition example_qubit :: qubit where
  "example_qubit =
     \<lparr>name = ''q1'',
      xy = \<lparr>xy_name = ''q1.xy'', xy_intermediate_frequency = 100,
            operations =
              [(''x180'', \<lparr>amplitude = 1 / 10, alpha = 0, anharmonicity = - 200,
                          length_ns = 40, axis_angle = 0, digital_marker = None\<rparr>)]\<rparr>,
      resonator = \<lparr>resonator_name = ''q1.resonator'',
                   resonator_intermediate_frequency = 50\<rparr>,
      qubit_anharmonicity = 20,
      GEF_frequency_shift = Some 3\<rparr>"

definition example_machine :: QuAM where
  "example_machine =
     \<lparr>qubits = [(''q1'', example_qubit)], active_qubit_names = [''q1''],
      thermalization_time = 1000\<rparr>"

definition example_Parameters :: Parameters where
  "example_Parameters =
     default_Parameters\<lparr>num_averages := 2, max_amp_factor := 2, amp_factor_step := 1\<rparr>"

definition example_fit :: "string \<Rightarrow> fit_vals" where
  "example_fit k = \<lparr>fit_f = 1, fit_phi = 0\<rparr>"

definition example_readout :: "nat \<Rightarrow> real \<times> real" where
  "example_readout k = (3 * real k, 4 * real k)"

definition example_sequencer :: sequencer where
  "example_sequencer =
     \<lparr>readout = example_readout, implicit_align = True,
      pulse_length = (\<lambda>el opn. if opn = ''readout'' then 100 else 40)\<rparr>"

definition example_fit_osc :: "data_array \<Rightarrow> error + (string \<Rightarrow> fit_vals)" where
  "example_fit_osc d = Inr example_fit"

definition example_ds :: "real list \<Rightarrow> Dataset" where
  "example_ds v =
     \<lparr>data_vars = [(''I_target'', v), (''Q_target'', v), (''state_target'', v)],
      coords = [(''qubit_pair'', [''q1-q2''])], dims = [(''qubit_pair'', 1)]\<rparr>"

section \<open>Properties of the power Rabi analysis\<close>

lemma get_all_lookup:
  "get_all m ks = Inr qs \<Longrightarrow> q \<in> set qs \<Longrightarrow> get_qubit m (name q) = Inr q"
proof (induction ks arbitrary: qs)
  case Nil
  then show ?case by simp
next
  case (Cons k ks)
  then show ?case
    by (auto simp: get_qubit_def split: sum.splits option.splits)
qed

lemma name_ensure_GEF: "name (ensure_GEF q) = name q"
  by (simp add: ensure_GEF_def)

lemma get_qubits_lookup:
  assumes "get_qubits m p = Inr qs" "q \<in> set qs"
  shows "\<exists>q0. get_qubit m (name q) = Inr q0 \<and> q = ensure_GEF q0"
proof -
  from assms(1) obtain qs0 where
    qs0: "get_all m (case qubits_param p of None \<Rightarrow> active_qubit_names m | Some ks \<Rightarrow> ks) = Inr qs0"
    and qs: "qs = map ensure_GEF qs0"
    by (auto simp: get_qubits_def split: sum.splits)
  from assms(2) qs obtain q0 where q0: "q0 \<in> set qs0" "q = ensure_GEF q0" by auto
  from get_all_lookup [OF qs0 q0(1)] q0(2) show ?thesis
    by (auto simp: name_ensure_GEF)
qed

lemma get_qubits_same_name:
  assumes "get_qubits m p = Inr qs" "q \<in> set qs" "q' \<in> set qs" "name q = name q'"
  shows "q = q'"
proof -
  from get_qubits_lookup [OF assms(1,2)] obtain q0 where
    q0: "get_qubit m (name q) = Inr q0" "q = ensure_GEF q0" by blast
  from get_qubits_lookup [OF assms(1,3)] obtain q1 where
    q1: "get_qubit m (name q') = Inr q1" "q' = ensure_GEF q1" by blast
  from q0(1) q1(1) assms(4) have "q0 = q1" by simp
  with q0(2) q1(2) show ?thesis by simp
qed

lemma fit_results_other:
  "fit_results fit opn qs acc = Inr res \<Longrightarrow> k \<notin> name ` set qs \<Longrightarrow> map_of res k = map_of acc k"
  by (induction qs arbitrary: acc) (auto split: sum.splits simp: update_conv')

lemma fit_results_entry:
  assumes "fit_results fit opn qs acc = Inr res" "q \<in> set qs"
    and "\<And>q'. q' \<in> set qs \<Longrightarrow> name q' = name q \<Longrightarrow> q' = q"
  shows "\<exists>a. new_pi_amp q opn (fit (name q)) = Inr a \<and> map_of res (name q) = Some (Pi_amplitude a)"
  using assms
proof (induction qs arbitrary: acc)
  case Nil
  then show ?case by simp
next
  case (Cons x qs)
  from Cons.prems(1) obtain a where
    a: "new_pi_amp x opn (fit (name x)) = Inr a"
    and rest: "fit_results fit opn qs (AList.update (name x) (Pi_amplitude a) acc) = Inr res"
    by (auto split: sum.splits)
  show ?case
  proof (cases "q \<in> set qs")
    case True
    with Cons.IH [OF rest] Cons.prems(3) show ?thesis by simp
  next
    case False
    with Cons.prems(2) have qx: "q = x" by simp
    have "name q \<notin> name ` set qs"
    proof
      assume "name q \<in> name ` set qs"
      then obtain q' where "q' \<in> set qs" "name q' = name q" by auto
      with Cons.prems(3) have "q' = q" by simp
      with \<open>q' \<in> set qs\<close> False show False by simp
    qed
    from fit_results_other [OF rest this] a qx show ?thesis
      by (simp add: update_conv')
  qed
qed

lemma fit_results_total:
  "(\<And>q. q \<in> set qs \<Longrightarrow> map_of (operations (xy q)) opn \<noteq> None) \<Longrightarrow>
     \<exists>res. fit_results fit opn qs acc = Inr res"
  by (induction qs arbitrary: acc) (auto simp: new_pi_amp_def lookup_operation_def split: option.splits)

lemma Pi_amplitude_cases:
  "Pi_amplitude (fmul amp (factor f phi)) =
     (case factor f phi of
        Fin x \<Rightarrow> if \<bar>amp * x\<bar> < 3 / 10 then amp * x else 3 / 10
      | NonFinite \<Rightarrow> 3 / 10)"
  by (simp add: Pi_amplitude_def split: pyfloat.splits)

text \<open>
  Claim C3. For every qubit of the node, the stored \<^verbatim>\<open>Pi_amplitude\<close> is the fitted amplitude
  (the amplitude of the operation times the fitted factor) when its absolute value is below
  0.3, and 0.3 otherwise; a factor that is not finite falls under "otherwise". Nothing else
  is done about a bad fit: when every qubit has the operation, the analysis returns a
  result for every qubit.
\<close>

theorem Pi_amplitude_clamp:
  assumes qs: "get_qubits m p = Inr qs"
    and ops: "\<And>q. q \<in> set qs \<Longrightarrow> \<exists>pl. lookup_operation q opn = Inr pl"
  shows "\<exists>res. fit_results fit opn qs [] = Inr res \<and>
    (\<forall>q \<in> set qs. \<forall>pl. lookup_operation q opn = Inr pl \<longrightarrow>
       map_of res (name q) =
         Some (case factor (fit_f (fit (name q))) (fit_phi (fit (name q))) of
                 Fin x \<Rightarrow> if \<bar>amplitude pl * x\<bar> < 3 / 10 then amplitude pl * x else 3 / 10
               | NonFinite \<Rightarrow> 3 / 10))"
proof -
  have "map_of (operations (xy q)) opn \<noteq> None" if "q \<in> set qs" for q
  proof -
    from ops [OF that] obtain pl where "lookup_operation q opn = Inr pl" by blast
    then show ?thesis by (auto simp: lookup_operation_def split: option.splits)
  qed
  from fit_results_total [OF this] obtain res where
    res: "fit_results fit opn qs [] = Inr res" by blast
  have "map_of res (name q) =
         Some (case factor (fit_f (fit (name q))) (fit_phi (fit (name q))) of
                 Fin x \<Rightarrow> if \<bar>amplitude pl * x\<bar> < 3 / 10 then amplitude pl * x else 3 / 10
               | NonFinite \<Rightarrow> 3 / 10)"
    if q: "q \<in> set qs" and pl: "lookup_operation q opn = Inr pl" for q pl
  proof -
    have "\<And>q'. q' \<in> set qs \<Longrightarrow> name q' = name q \<Longrightarrow> q' = q"
      using get_qubits_same_name [OF qs _ q] by blast
    from fit_results_entry [OF res q this] obtain a where
      a: "new_pi_amp q opn (fit (name q)) = Inr a" "map_of res (name q) = Some (Pi_amplitude a)"
      by blast
    from a(1) pl have "a = fmul (amplitude pl) (factor (fit_f (fit (name q))) (fit_phi (fit (name q))))"
      by (simp add: new_pi_amp_def)
    with a(2) show ?thesis by (simp add: Pi_amplitude_cases)
  qed
  with res show ?thesis by blast
qed

lemma example_qubits: "get_qubits example_machine default_Parameters = Inr [example_qubit]"
  by (simp add: get_qubits_def get_qubit_def example_machine_def default_Parameters_def
      example_qubit_def ensure_GEF_def)

lemma example_lookup:
  "lookup_operation example_qubit ''x180'' =
     Inr \<lparr>amplitude = 1 / 10, alpha = 0, anharmonicity = - 200,
                          length_ns = 40, axis_angle = 0, digital_marker = None\<rparr>"
  by (simp add: lookup_operation_def example_qubit_def)

lemma example_factor: "factor 1 0 = Fin (1 / 2)"
  by (simp add: factor_def fdiv_def adjust_phi_def)

theorem Pi_amplitude_clamp_witness:
  "get_qubits example_machine default_Parameters = Inr [example_qubit] \<and>
   (\<exists>pl. lookup_operation example_qubit ''x180'' = Inr pl) \<and>
   (\<exists>res. fit_results example_fit ''x180'' [example_qubit] [] = Inr res \<and>
      map_of res ''q1'' = Some (1 / 20))"
proof -
  have ops: "\<And>q. q \<in> set [example_qubit] \<Longrightarrow> \<exists>pl. lookup_operation q ''x180'' = Inr pl"
    by (simp add: example_lookup)
  from Pi_amplitude_clamp [OF example_qubits ops, of example_fit] obtain res where
    res: "fit_results example_fit ''x180'' [example_qubit] [] = Inr res"
    and v: "\<forall>q \<in> set [example_qubit]. \<forall>pl. lookup_operation q ''x180'' = Inr pl \<longrightarrow>
       map_of res (name q) =
         Some (case factor (fit_f (example_fit (name q))) (fit_phi (example_fit (name q))) of
                 Fin x \<Rightarrow> if \<bar>amplitude pl * x\<bar> < 3 / 10 then amplitude pl * x else 3 / 10
               | NonFinite \<Rightarrow> 3 / 10)"
    by blast
  from v example_lookup have "map_of res ''q1'' = Some (1 / 20)"
    by (simp add: example_fit_def example_factor) (simp add: example_qubit_def)
  with res example_qubits example_lookup show ?thesis by blast
qed

text \<open>
  Claim C4. For a fitted frequency \<open>f\<close> other than 0, the factor is
  \<open>(\<pi> - \<phi>') / (2 \<pi> f)\<close>, where \<open>\<phi>'\<close> is the fitted phase less \<open>\<pi>\<close> when it exceeds
  \<open>\<pi> / 2\<close>, and the candidate amplitude is the amplitude of the operation times this factor.
\<close>

theorem factor_formula:
  assumes "fit_f fv \<noteq> 0" and "lookup_operation q opn = Inr pl"
  shows "factor (fit_f fv) (fit_phi fv) =
           Fin ((pi - (if fit_phi fv > pi / 2 then fit_phi fv - pi else fit_phi fv)) /
                (2 * pi * fit_f fv)) \<and>
         new_pi_amp q opn fv =
           Inr (Fin (amplitude pl *
             ((pi - (if fit_phi fv > pi / 2 then fit_phi fv - pi else fit_phi fv)) /
              (2 * pi * fit_f fv))))"
  using assms by (simp add: factor_def fdiv_def adjust_phi_def new_pi_amp_def)

theorem factor_formula_witness:
  "fit_f (example_fit ''q1'') \<noteq> 0 \<and>
   factor (fit_f (example_fit ''q1'')) (fit_phi (example_fit ''q1'')) = Fin (1 / 2) \<and>
   new_pi_amp example_qubit ''x180'' (example_fit ''q1'') = Inr (Fin (1 / 20))"
proof -
  have f: "fit_f (example_fit ''q1'') \<noteq> 0" by (simp add: example_fit_def)
  from factor_formula [OF f example_lookup] show ?thesis
    by (simp add: example_fit_def)
qed

text \<open>
  Claim C8. The adjusted phase is meant to lie in \<open>[-\<pi>/2, \<pi>/2]\<close>. At the fitted phase
  \<open>-\<pi>\<close> the adjustment changes nothing and the result is below \<open>-\<pi>/2\<close>.
\<close>

theorem adjust_phi_leaves_range:
  "adjust_phi (- pi) = - pi \<and> adjust_phi (- pi) < - (pi / 2)"
  by (simp add: adjust_phi_def)

subsection \<open>The sweep in double precision\<close>

lemma rne_error: "\<bar>of_int (rne y) - y\<bar> \<le> 1 / 2"
proof -
  have "of_int \<lfloor>y\<rfloor> \<le> y" "y < of_int \<lfloor>y\<rfloor> + 1" by linarith+
  then show ?thesis by (auto simp: rne_def Let_def)
qed

lemma rne_of_int: "rne (of_int k) = k"
  by (simp add: rne_def)

lemma fl_error: "\<bar>fl x - x\<bar> \<le> \<bar>x\<bar> / 2 ^ 53"
proof (cases "x = 0")
  case True
  then show ?thesis by (simp add: fl_def)
next
  case False
  define e where "e = \<lfloor>log 2 \<bar>x\<bar>\<rfloor> - 52"
  define p :: real where "p = 2 powr of_int e"
  have p: "0 < p" by (simp add: p_def)
  have flx: "fl x = of_int (rne (x / p)) * p"
    using False by (simp add: fl_def e_def p_def Let_def)
  have "\<bar>fl x - x\<bar> = \<bar>of_int (rne (x / p)) - x / p\<bar> * p"
  proof -
    have "fl x - x = (of_int (rne (x / p)) - x / p) * p"
      using p by (simp add: flx field_simps)
    then show ?thesis using p by (simp add: abs_mult)
  qed
  also have "\<dots> \<le> (1 / 2) * p"
    using rne_error [of "x / p"] p by (intro mult_right_mono) simp_all
  also have "\<dots> \<le> \<bar>x\<bar> / 2 ^ 53"
  proof -
    have "of_int \<lfloor>log 2 \<bar>x\<bar>\<rfloor> \<le> log 2 \<bar>x\<bar>" by simp
    then have "2 powr of_int \<lfloor>log 2 \<bar>x\<bar>\<rfloor> \<le> 2 powr log 2 \<bar>x\<bar>"
      by (simp only: powr_le_cancel_iff [of 2] one_less_numeral_iff semiring_norm)
    also have "\<dots> = \<bar>x\<bar>" using False by simp
    finally have le: "2 powr of_int \<lfloor>log 2 \<bar>x\<bar>\<rfloor> \<le> \<bar>x\<bar>" .
    have "p * 2 powr 52 = 2 powr (of_int e + 52)"
      by (simp only: p_def powr_add)
    also have "of_int e + 52 = (of_int \<lfloor>log 2 \<bar>x\<bar>\<rfloor> :: real)"
      by (simp add: e_def)
    finally have "p * 2 powr 52 \<le> \<bar>x\<bar>" using le by simp
    moreover have "(2::real) powr 52 = 2 ^ 52"
      using powr_realpow [of "2::real" 52] by simp
    ultimately have "p * 2 ^ 52 \<le> \<bar>x\<bar>" by simp
    then show ?thesis by (simp add: field_simps)
  qed
  finally show ?thesis .
qed

lemma fl_of_int:
  assumes "\<bar>n\<bar> < 2 ^ 53"
  shows "fl (of_int n) = of_int n"
proof (cases "n = 0")
  case True
  then show ?thesis by (simp add: fl_def)
next
  case False
  define e where "e = \<lfloor>log 2 \<bar>of_int n :: real\<bar>\<rfloor> - 52"
  have "\<bar>of_int n :: real\<bar> < 2 ^ 53"
    using assms by (metis of_int_abs of_int_less_numeral_power_cancel_iff)
  then have "log 2 \<bar>of_int n :: real\<bar> < 53"
    using False by (subst log_less_iff) (simp_all add: powr_realpow [symmetric])
  then have "\<lfloor>log 2 \<bar>of_int n :: real\<bar>\<rfloor> < 53" by linarith
  then have e: "e \<le> 0" by (simp add: e_def)
  define k where "k = nat (- e)"
  have pk: "2 powr of_int e = 1 / (2::real) ^ k"
  proof -
    have "of_int e = - real k" using e by (simp add: k_def)
    then show ?thesis by (simp add: powr_minus powr_realpow divide_inverse)
  qed
  have "of_int n / 2 powr of_int e = (of_int (n * 2 ^ k) :: real)"
    by (simp add: pk)
  then have "rne (of_int n / 2 powr of_int e) = n * 2 ^ k"
    by (simp only: rne_of_int)
  then have "fl (of_int n) = of_int (n * 2 ^ k) * (1 / 2 ^ k)"
    using False by (simp add: fl_def e_def [symmetric] Let_def pk)
  then show ?thesis by simp
qed

lemma fl_numerals: "fl 1 = 1" "fl 2 = 2" "fl 3 = 3"
  using fl_of_int [of 1] fl_of_int [of 2] fl_of_int [of 3] by simp_all

lemma fl_zero: "fl 0 = 0"
  by (simp add: fl_def)

lemma fl_bounds: "x - \<bar>x\<bar> / 2 ^ 53 \<le> fl x" "fl x \<le> x + \<bar>x\<bar> / 2 ^ 53"
proof -
  have "\<bar>fl x - x\<bar> \<le> \<bar>x\<bar> / 2 ^ 53" by (rule fl_error)
  then show "x - \<bar>x\<bar> / 2 ^ 53 \<le> fl x" "fl x \<le> x + \<bar>x\<bar> / 2 ^ 53" by linarith+
qed

lemma fl_nonneg: "0 \<le> x \<Longrightarrow> 0 \<le> fl x"
  using fl_bounds(1) [of x] by simp

lemma fl_nonpos: "x \<le> 0 \<Longrightarrow> fl x \<le> 0"
  using fl_bounds(2) [of x] by simp

lemma fl_le_scaled: "0 \<le> x \<Longrightarrow> fl x \<le> x * (1 + 1 / 10 ^ 15)"
  using fl_bounds(2) [of x] by simp

lemma fl_near: "\<bar>x\<bar> \<le> 2 \<Longrightarrow> x - 1 / 10 ^ 15 \<le> fl x \<and> fl x \<le> x + 1 / 10 ^ 15"
  using fl_bounds [of x] by simp

lemma arange_values_in_range:
  assumes s: "1 / 1000 \<le> s" and a: "- (199 / 100) \<le> a" and b: "b \<le> 199 / 100"
    and i: "real i < fl (fl (b - a) / s)"
  shows "- 2 \<le> (if i = 0 then a else if i = 1 then fl (a + s)
                 else fl (a + fl (real i * fl (fl (a + s) - a)))) \<and>
         (if i = 0 then a else if i = 1 then fl (a + s)
                 else fl (a + fl (real i * fl (fl (a + s) - a)))) < 2"
proof -
  define D where "D = b - a"
  define A where "A = fl D"
  define Q where "Q = fl (A / s)"
  define S where "S = real i * s"
  have s0: "0 < s" using s by simp
  have iQ: "real i < Q" using i by (simp add: Q_def A_def D_def)
  have Dpos: "0 < D"
  proof (rule ccontr)
    assume "\<not> 0 < D"
    then have "A \<le> 0" unfolding A_def by (intro fl_nonpos) simp
    then have "A / s \<le> 0" using s0 by (simp add: divide_le_0_iff)
    then have "Q \<le> 0" unfolding Q_def by (rule fl_nonpos)
    with iQ show False by simp
  qed
  have D4: "D \<le> 398 / 100" using a b by (simp add: D_def)
  have ab: "a < b" using Dpos by (simp add: D_def)
  have A0: "0 \<le> A" unfolding A_def using Dpos by (intro fl_nonneg) simp
  have AD: "A \<le> D * (1 + 1 / 10 ^ 15)"
    unfolding A_def using Dpos by (intro fl_le_scaled) simp
  have "0 \<le> A / s" using A0 s0 by simp
  then have "Q \<le> A / s * (1 + 1 / 10 ^ 15)" unfolding Q_def by (rule fl_le_scaled)
  then have "Q * s \<le> A / s * (1 + 1 / 10 ^ 15) * s"
    using s0 by (intro mult_right_mono) simp_all
  also have "\<dots> = A * (1 + 1 / 10 ^ 15)" using s0 by simp
  finally have Qs: "Q * s \<le> A * (1 + 1 / 10 ^ 15)" .
  have "S < Q * s" unfolding S_def using iQ s0 by (intro mult_strict_right_mono)
  with Qs AD have SD: "S < D * (1 + 1 / 10 ^ 15) * (1 + 1 / 10 ^ 15)" by simp
  have S0: "0 \<le> S" unfolding S_def using s0 by simp
  show ?thesis
  proof (cases "i = 0")
    case True
    with a b ab show ?thesis by simp
  next
    case i0: False
    then have "1 \<le> real i" by simp
    then have "1 * s \<le> real i * s" using s0 by (intro mult_right_mono) simp_all
    then have sS: "s \<le> S" by (simp add: S_def)
    have up: "a + s < 1991 / 1000"
      using sS SD D4 b D_def by simp
    have lo: "- (199 / 100) \<le> a + s" using a s0 by simp
    have n2: "\<bar>a + s\<bar> \<le> 2" using up lo by simp
    note nx = fl_near [OF n2]
    show ?thesis
    proof (cases "i = 1")
      case True
      with i0 nx up lo show ?thesis by simp
    next
      case False
      define delta where "delta = fl (fl (a + s) - a)"
      define P where "P = fl (real i * delta)"
      have y0: "0 \<le> fl (a + s) - a" using nx s by simp
      have yu: "fl (a + s) - a \<le> s + 1 / 10 ^ 15" using nx by simp
      have d0: "0 \<le> delta" unfolding delta_def using y0 by (rule fl_nonneg)
      have "delta \<le> (fl (a + s) - a) * (1 + 1 / 10 ^ 15)"
        unfolding delta_def using y0 by (rule fl_le_scaled)
      with yu have du: "delta \<le> (s + 1 / 10 ^ 15) * (1 + 1 / 10 ^ 15)" by simp
      have "real i * delta \<le> real i * ((s + 1 / 10 ^ 15) * (1 + 1 / 10 ^ 15))"
        using du by (intro mult_left_mono) simp_all
      also have "\<dots> = (S + real i * (1 / 10 ^ 15)) * (1 + 1 / 10 ^ 15)"
        by (simp add: S_def algebra_simps)
      finally have id1: "real i * delta \<le> (S + real i * (1 / 10 ^ 15)) * (1 + 1 / 10 ^ 15)" .
      have "real i * 1 \<le> real i * (1000 * s)" using s by (intro mult_left_mono) simp_all
      then have i1000: "real i \<le> 1000 * S" by (simp add: S_def)
      have id0: "0 \<le> real i * delta" using d0 by simp
      have P0: "0 \<le> P" unfolding P_def using id0 by (rule fl_nonneg)
      have Pu: "P \<le> real i * delta * (1 + 1 / 10 ^ 15)"
        unfolding P_def using id0 by (rule fl_le_scaled)
      have "P \<le> S * (1 + 1 / 10 ^ 12) * (1 + 1 / 10 ^ 15) * (1 + 1 / 10 ^ 15)"
        using Pu id1 i1000 by simp
      also have "\<dots> \<le> S * (1 + 1 / 10 ^ 11)" using S0 by simp
      finally have PS: "P \<le> S * (1 + 1 / 10 ^ 11)" .
      have "P < D * (1 + 1 / 10 ^ 10)" using PS SD S0 Dpos by simp
      then have xu: "a + P < 1991 / 1000" using D4 b D_def by simp
      have xl: "- (199 / 100) \<le> a + P" using a P0 by simp
      have "\<bar>a + P\<bar> \<le> 2" using xu xl by simp
      from fl_near [OF this] xu xl False i0 show ?thesis
        by (simp add: P_def delta_def)
    qed
  qed
qed

lemma arange_length_bound:
  assumes s: "1 / 1000 \<le> s" and a: "- (199 / 100) \<le> a" and b: "b \<le> 199 / 100"
  shows "\<lceil>fl (fl (b - a) / s)\<rceil> \<le> 2 ^ 63"
proof (cases "0 < b - a")
  case False
  then have "fl (b - a) \<le> 0" by (intro fl_nonpos) simp
  then have "fl (b - a) / s \<le> 0" using s by (simp add: divide_le_0_iff)
  then have "fl (fl (b - a) / s) \<le> 0" by (rule fl_nonpos)
  then have "\<lceil>fl (fl (b - a) / s)\<rceil> \<le> 0" by (simp add: ceiling_le_iff)
  then show ?thesis by simp
next
  case True
  define A where "A = fl (b - a)"
  have A0: "0 \<le> A" unfolding A_def using True by (intro fl_nonneg) simp
  have "A \<le> (b - a) * (1 + 1 / 10 ^ 15)"
    unfolding A_def using True by (intro fl_le_scaled) simp
  with a b have A4: "A \<le> 4" by simp
  have "A / s \<le> A / (1 / 1000)" using s A0 by (intro divide_left_mono) simp_all
  with A4 have q: "A / s \<le> 4000" by simp
  have q0: "0 \<le> A / s" using A0 s by simp
  from fl_le_scaled [OF q0] q have "fl (A / s) \<le> 4001" by simp
  then have "\<lceil>fl (A / s)\<rceil> \<le> 4001" by (simp add: ceiling_le_iff)
  then show ?thesis by (simp add: A_def)
qed

text \<open>
  Claim C10, as stated, fails: with \<^verbatim>\<open>max_amp_factor = 3\<close> and \<^verbatim>\<open>amp_factor_step = 1\<close> the
  sweep holds the pre-factor 2, which is outside \<open>[-2, 2)\<close>.
\<close>

theorem amps_outside_range:
  "amps (default_Parameters\<lparr>max_amp_factor := 3, amp_factor_step := 1\<rparr>) = Inr [0, 1, 2] \<and>
   \<not> within_hardware_range [0, 1, 2]"
  by (simp add: amps_def arange_def default_Parameters_def within_hardware_range_def
      fl_numerals fl_zero Let_def upt_rec)

text \<open>
  Claim C10, amended. For a step of at least 0.001, a lower end of at least \<open>-1.99\<close> and
  an upper end of at most 1.99, the sweep is built and every pre-factor of it, as computed
  in double precision, lies in \<open>[-2, 2)\<close>.
\<close>

theorem amps_within_range:
  assumes "1 / 1000 \<le> amp_factor_step p" "- (199 / 100) \<le> min_amp_factor p"
    "max_amp_factor p \<le> 199 / 100"
  shows "\<exists>as. amps p = Inr as \<and> within_hardware_range as"
proof -
  let ?a = "min_amp_factor p" and ?b = "max_amp_factor p" and ?s = "amp_factor_step p"
  let ?f = "\<lambda>i. if i = 0 then ?a else if i = 1 then fl (?a + ?s)
                 else fl (?a + fl (real i * fl (fl (?a + ?s) - ?a)))"
  let ?len = "\<lceil>fl (fl (?b - ?a) / ?s)\<rceil>"
  have s0: "?s \<noteq> 0" using assms(1) by simp
  have len: "\<not> 2 ^ 63 < ?len" using arange_length_bound [OF assms] by simp
  have eq: "amps p = Inr (map ?f [0..<nat ?len])"
    using s0 len by (simp add: amps_def arange_def Let_def)
  have val: "- 2 \<le> ?f i \<and> ?f i < 2" if "i < nat ?len" for i
  proof -
    from that have "int i < ?len" by simp
    then have "real i < fl (fl (?b - ?a) / ?s)" by (simp add: less_ceiling_iff)
    from arange_values_in_range [OF assms this] show ?thesis .
  qed
  have "\<forall>x \<in> set (map ?f [0..<nat ?len]). - 2 \<le> x \<and> x < 2"
  proof
    fix x
    assume "x \<in> set (map ?f [0..<nat ?len])"
    then have "x \<in> ?f ` {0..<nat ?len}" by (simp only: set_map set_upt)
    then obtain i where "i \<in> {0..<nat ?len}" "x = ?f i" by (rule imageE)
    with val [of i] show "- 2 \<le> x \<and> x < 2" by (simp only: atLeastLessThan_iff)
  qed
  then have "within_hardware_range (map ?f [0..<nat ?len])"
    by (simp only: within_hardware_range_def list_all_iff)
  with eq show ?thesis by blast
qed

theorem amps_within_range_witness:
  "1 / 1000 \<le> amp_factor_step default_Parameters \<and>
   - (199 / 100) \<le> min_amp_factor default_Parameters \<and>
   max_amp_factor default_Parameters \<le> 199 / 100 \<and>
   (\<exists>as. amps default_Parameters = Inr as \<and> within_hardware_range as)"
proof -
  have h: "1 / 1000 \<le> amp_factor_step default_Parameters"
    "- (199 / 100) \<le> min_amp_factor default_Parameters"
    "max_amp_factor default_Parameters \<le> 199 / 100"
    by (simp_all add: default_Parameters_def)
  from amps_within_range [OF h] h show ?thesis by blast
qed

section \<open>Properties of the QUA program\<close>

subsection \<open>What is played and measured\<close>

lemma qubit_blocks_Inr:
  "qubit_blocks m opn n_avg as iqs = Inr prog \<Longrightarrow>
     prog = concat (map (\<lambda>iq. [For_n n_avg [Save_n, For_a as (sweep_body m opn (fst iq) (snd iq))],
                              Align]) iqs)"
  by (induction iqs arbitrary: prog)
    (auto simp: qubit_block_def from_array_def split: sum.splits if_splits)

lemma qubit_blocks_total:
  "as \<noteq> [] \<Longrightarrow> (\<And>iq. iq \<in> set iqs \<Longrightarrow> \<exists>pl. lookup_operation (snd iq) opn = Inr pl) \<Longrightarrow>
     \<exists>prog. qubit_blocks m opn n_avg as iqs = Inr prog"
proof (induction iqs)
  case Nil
  show ?case by simp
next
  case (Cons iq iqs)
  obtain i q where iq: "iq = (i, q)" by (cases iq)
  from Cons.prems(2) [of iq] obtain pl where "lookup_operation q opn = Inr pl"
    by (auto simp: iq)
  moreover from Cons.IH [OF Cons.prems(1)] Cons.prems(2) obtain bs where
    "qubit_blocks m opn n_avg as iqs = Inr bs" by auto
  ultimately show ?case using Cons.prems(1)
    by (simp add: iq qubit_block_def from_array_def)
qed

lemma snd_enumerate_in_set: "iq \<in> set (enumerate c qs) \<Longrightarrow> snd iq \<in> set qs"
proof -
  assume "iq \<in> set (enumerate c qs)"
  then have "snd iq \<in> snd ` set (enumerate c qs)" by (rule imageI)
  also have "snd ` set (enumerate c qs) = set qs"
    by (simp only: set_map [symmetric] map_snd_enumerate)
  finally show ?thesis .
qed

lemma power_rabi_Inr:
  "power_rabi m opn n_avg as qs = Inr prog \<Longrightarrow>
     prog = concat (map (\<lambda>iq. [For_n n_avg [Save_n, For_a as (sweep_body m opn (fst iq) (snd iq))],
                              Align]) (enumerate 0 qs))"
  unfolding power_rabi_def by (rule qubit_blocks_Inr)

lemma power_rabi_total:
  assumes "as \<noteq> []" "\<And>q. q \<in> set qs \<Longrightarrow> \<exists>pl. lookup_operation q opn = Inr pl"
  shows "\<exists>prog. power_rabi m opn n_avg as qs = Inr prog"
  unfolding power_rabi_def using assms(1)
proof (rule qubit_blocks_total)
  fix iq
  assume "iq \<in> set (enumerate 0 qs)"
  then have "snd iq \<in> set qs" by (rule snd_enumerate_in_set)
  then show "\<exists>pl. lookup_operation (snd iq) opn = Inr pl" by (rule assms(2))
qed

lemma elements_block:
  "set (stmt_elements (For_n n_avg [Save_n, For_a as (sweep_body m opn i q)])) =
     {xy_name (xy q), resonator_name (resonator q)}"
  by (auto simp: sweep_body_def)

lemma elements_loop_body:
  "set (concat (map stmt_elements [Save_n, For_a as (sweep_body m opn i q)])) =
     {xy_name (xy q), resonator_name (resonator q)}"
  "set (concat (map stmt_elements (sweep_body m opn i q))) =
     {xy_name (xy q), resonator_name (resonator q)}"
  by (auto simp: sweep_body_def)

lemma elements_program:
  "set (concat (map stmt_elements (concat (map (\<lambda>iq.
      [For_n n_avg [Save_n, For_a as (sweep_body m opn (fst iq) (snd iq))], Align]) iqs)))) =
   (\<Union>iq \<in> set iqs. {xy_name (xy (snd iq)), resonator_name (resonator (snd iq))})"
  by (induction iqs) (simp_all add: elements_block del: stmt_elements.simps(9))

lemma align_time_fold: "(t::nat) \<le> fold (\<lambda>e t. max (c e) t) els t"
proof (induction els arbitrary: t)
  case Nil
  show ?case by simp
next
  case (Cons x els)
  have "t \<le> max (c x) t" by simp
  also have "\<dots> \<le> fold (\<lambda>e t. max (c e) t) els (max (c x) t)" by (rule Cons.IH)
  finally show ?case by simp
qed

lemma align_time_ge_fold:
  "e \<in> set els \<Longrightarrow> (c e :: nat) \<le> fold (\<lambda>e t. max (c e) t) els t"
proof (induction els arbitrary: t)
  case Nil
  then show ?case by simp
next
  case (Cons x els)
  show ?case
  proof (cases "e = x")
    case True
    have "c x \<le> max (c x) t" by simp
    also have "\<dots> \<le> fold (\<lambda>e t. max (c e) t) els (max (c x) t)" by (rule align_time_fold)
    finally show ?thesis using True by simp
  next
    case False
    with Cons show ?thesis by simp
  qed
qed

lemma align_time_ge: "e \<in> set els \<Longrightarrow> c e \<le> align_time c els"
  unfolding align_time_def by (rule align_time_ge_fold)

lemma events_loop_align [simp]: "events (loop_align sq body s) = events s"
  by (simp add: loop_align_def align_elements_def)

lemma var_a_loop_align [simp]: "var_a (loop_align sq body s) = var_a s"
  by (simp add: loop_align_def align_elements_def)

lemma events_sweep_body:
  assumes ne: "xy_name (xy q) \<noteq> resonator_name (resonator q)"
    and xy: "xy_name (xy q) \<in> set els" and res: "resonator_name (resonator q) \<in> set els"
  shows "\<exists>es. events (fold (exec sq els) (sweep_body m opn i q) s) = events s @ es \<and>
     sweep_point sq opn q (var_a s) es"
proof -
  let ?x = "xy_name (xy q)" and ?r = "resonator_name (resonator q)"
  let ?d = "pulse_length sq ?x opn"
  let ?c = "(clock s)(?x := clock s ?x + ?d + ?d)"
  have "?c ?x \<le> align_time ?c els" using xy by (rule align_time_ge)
  then have le: "clock s ?x + ?d + ?d \<le> align_time ?c els" by simp
  have "events (fold (exec sq els) (sweep_body m opn i q) s) = events s @
     [Pulse ?x opn (Some (xy_intermediate_frequency (xy q))) None (clock s ?x) ?d,
      Pulse ?x opn (Some (xy_intermediate_frequency (xy q) - qubit_anharmonicity q))
        (Some (var_a s)) (clock s ?x + ?d) ?d,
      Readout ?r ''readout'' (Some (resonator_intermediate_frequency (resonator q) + gef_shift q))
        (align_time ?c els) (pulse_length sq ?r ''readout'')]"
    using ne res by (simp add: sweep_body_def align_elements_def add.assoc)
  with le show ?thesis unfolding sweep_point_def by blast
qed

lemma fold_concat_map:
  "fold f (concat (map h xs)) s = fold (\<lambda>x. fold f (h x)) xs s"
  by (induction xs arbitrary: s) simp_all

lemma concat_map_const: "concat (map (\<lambda>j. X) [0..<n]) = concat (replicate n X)"
  by (simp add: map_replicate_const)

lemma fold_appends_flat:
  assumes "\<And>x s. x \<in> set xs \<Longrightarrow>
      \<exists>ess. P (f x s) = P s @ concat ess \<and> list_all2 R (g x) ess"
  shows "\<exists>ess. P (fold f xs s) = P s @ concat ess \<and> list_all2 R (concat (map g xs)) ess"
  using assms
proof (induction xs arbitrary: s)
  case Nil
  show ?case by simp
next
  case (Cons x xs)
  from Cons.prems [of x s] obtain e1 where
    e1: "P (f x s) = P s @ concat e1" "list_all2 R (g x) e1" by auto
  have "\<exists>ess. P (fold f xs (f x s)) = P (f x s) @ concat ess \<and>
      list_all2 R (concat (map g xs)) ess"
    by (rule Cons.IH) (simp add: Cons.prems)
  then obtain e2 where
    e2: "P (fold f xs (f x s)) = P (f x s) @ concat e2" "list_all2 R (concat (map g xs)) e2"
    by blast
  show ?case
    by (rule exI [of _ "e1 @ e2"]) (simp add: e1 e2 list_all2_appendI)
qed

lemma events_For_a:
  assumes ne: "xy_name (xy q) \<noteq> resonator_name (resonator q)"
    and xy: "xy_name (xy q) \<in> set els" and res: "resonator_name (resonator q) \<in> set els"
  shows "\<exists>ess. events (exec sq els (For_a as (sweep_body m opn i q)) s) = events s @ concat ess \<and>
     list_all2 (sweep_point sq opn q) as ess"
proof -
  let ?body = "sweep_body m opn i q"
  have "\<exists>ess. events (fold (\<lambda>a s'. fold (exec sq els) ?body
            (loop_align sq ?body (s'\<lparr>var_a := a\<rparr>))) as s) = events s @ concat ess \<and>
      list_all2 (sweep_point sq opn q) (concat (map (\<lambda>a. [a]) as)) ess"
  proof (rule fold_appends_flat)
    fix a s'
    from events_sweep_body [OF ne xy res, of sq m opn i "loop_align sq ?body (s'\<lparr>var_a := a\<rparr>)"]
    obtain es where
      es: "events (fold (exec sq els) ?body (loop_align sq ?body (s'\<lparr>var_a := a\<rparr>))) =
        events s' @ es" "sweep_point sq opn q a es"
      by auto
    show "\<exists>ess. events (fold (exec sq els) ?body (loop_align sq ?body (s'\<lparr>var_a := a\<rparr>))) =
        events s' @ concat ess \<and> list_all2 (sweep_point sq opn q) [a] ess"
      by (rule exI [of _ "[es]"]) (simp add: es)
  qed
  then show ?thesis by simp
qed

lemma events_For_n:
  assumes ne: "xy_name (xy q) \<noteq> resonator_name (resonator q)"
    and xy: "xy_name (xy q) \<in> set els" and res: "resonator_name (resonator q) \<in> set els"
  shows "\<exists>ess. events (fold (exec sq els)
        [For_n n_avg [Save_n, For_a as (sweep_body m opn i q)], Align] s) =
       events s @ concat ess \<and>
     list_all2 (sweep_point sq opn q) (concat (replicate (nat n_avg) as)) ess"
proof -
  let ?body = "[Save_n, For_a as (sweep_body m opn i q)]"
  have "\<exists>ess. events (fold (\<lambda>j s'. fold (exec sq els) ?body
            (loop_align sq ?body (s'\<lparr>var_n := int j\<rparr>))) [0..<nat n_avg] s) =
        events s @ concat ess \<and>
      list_all2 (sweep_point sq opn q) (concat (map (\<lambda>j. as) [0..<nat n_avg])) ess"
  proof (rule fold_appends_flat)
    fix j s'
    from events_For_a [OF ne xy res, of sq as m opn i
        "exec sq els Save_n (loop_align sq ?body (s'\<lparr>var_n := int j\<rparr>))"]
    show "\<exists>ess. events (fold (exec sq els) ?body (loop_align sq ?body (s'\<lparr>var_n := int j\<rparr>))) =
        events s' @ concat ess \<and> list_all2 (sweep_point sq opn q) as ess"
      by simp
  qed
  then show ?thesis
    by (simp add: concat_map_const align_elements_def)
qed

lemma events_program:
  assumes ne: "\<forall>q \<in> set qs. xy_name (xy q) \<noteq> resonator_name (resonator q)"
    and els: "\<forall>q \<in> set qs. xy_name (xy q) \<in> set els \<and> resonator_name (resonator q) \<in> set els"
  shows "\<exists>ess. events (fold (exec sq els) (concat (map (\<lambda>iq.
        [For_n n_avg [Save_n, For_a as (sweep_body m opn (fst iq) (snd iq))], Align])
        (enumerate c qs))) s) = events s @ concat ess \<and>
     list_all2 (\<lambda>(q, a). sweep_point sq opn q a)
       (concat (map (\<lambda>q. concat (replicate (nat n_avg) (map (Pair q) as))) qs)) ess"
proof -
  let ?g = "\<lambda>q. concat (replicate (nat n_avg) (map (Pair q) as))"
  let ?R = "\<lambda>(q, a). sweep_point sq opn q a"
  have "\<exists>ess. events (fold (\<lambda>iq. fold (exec sq els)
        [For_n n_avg [Save_n, For_a as (sweep_body m opn (fst iq) (snd iq))], Align])
        (enumerate c qs) s) = events s @ concat ess \<and>
      list_all2 ?R (concat (map (\<lambda>iq. ?g (snd iq)) (enumerate c qs))) ess"
  proof (rule fold_appends_flat)
    fix iq s'
    assume "iq \<in> set (enumerate c qs)"
    then have "snd iq \<in> set qs" by (rule snd_enumerate_in_set)
    with ne els have h: "xy_name (xy (snd iq)) \<noteq> resonator_name (resonator (snd iq))"
      "xy_name (xy (snd iq)) \<in> set els" "resonator_name (resonator (snd iq)) \<in> set els"
      by blast+
    from events_For_n [OF h, of sq n_avg as m opn "fst iq" s'] obtain ess where
      ess: "events (fold (exec sq els)
        [For_n n_avg [Save_n, For_a as (sweep_body m opn (fst iq) (snd iq))], Align] s') =
        events s' @ concat ess"
        "list_all2 (sweep_point sq opn (snd iq)) (concat (replicate (nat n_avg) as)) ess"
      by blast
    have "?g (snd iq) = map (Pair (snd iq)) (concat (replicate (nat n_avg) as))"
      by (simp add: map_concat)
    with ess(2) have "list_all2 ?R (?g (snd iq)) ess"
      by (simp add: list_all2_map1)
    with ess(1) show "\<exists>ess. events (fold (exec sq els)
        [For_n n_avg [Save_n, For_a as (sweep_body m opn (fst iq) (snd iq))], Align] s') =
        events s' @ concat ess \<and> list_all2 ?R (?g (snd iq)) ess"
      by blast
  qed
  moreover have "map (\<lambda>iq. ?g (snd iq)) (enumerate c qs) = map ?g qs"
  proof -
    have "map (\<lambda>iq. ?g (snd iq)) (enumerate c qs) = map ?g (map snd (enumerate c qs))"
      by (simp only: map_map comp_def)
    then show ?thesis by (simp only: map_snd_enumerate)
  qed
  ultimately show ?thesis by (simp only: fold_concat_map)
qed

text \<open>
  Claim C6. For a sweep that is not empty and qubits that have the operation, the program
  is built, and what it plays and measures is, for every qubit, every repetition and every
  amplitude pre-factor of the sweep, in this order, one point of the sweep and nothing
  else: the operation on the drive at its intermediate frequency, then, from the end of
  that pulse, the operation scaled by the pre-factor at that frequency less the
  anharmonicity, then the readout of the resonator, which after the alignment starts no
  earlier than the scaled pulse ends. The resonator is an element other than the drive.
  This holds with and without the alignment at the start of the loop iterations.
\<close>

theorem sweep_point_sequence:
  assumes "as \<noteq> []"
    and "\<forall>q \<in> set qs. \<exists>pl. lookup_operation q opn = Inr pl"
    and "\<forall>q \<in> set qs. xy_name (xy q) \<noteq> resonator_name (resonator q)"
  shows "\<exists>prog ess. power_rabi m opn n_avg as qs = Inr prog \<and>
     events (run sq prog) = concat ess \<and>
     list_all2 (\<lambda>(q, a). sweep_point sq opn q a)
       (concat (map (\<lambda>q. concat (replicate (nat n_avg) (map (Pair q) as))) qs)) ess"
proof -
  from assms(2) have "\<And>q. q \<in> set qs \<Longrightarrow> \<exists>pl. lookup_operation q opn = Inr pl" by blast
  from power_rabi_total [OF assms(1) this] obtain prog where
    prog: "power_rabi m opn n_avg as qs = Inr prog" by blast
  let ?prog = "concat (map (\<lambda>iq.
      [For_n n_avg [Save_n, For_a as (sweep_body m opn (fst iq) (snd iq))], Align])
      (enumerate 0 qs))"
  let ?els = "concat (map stmt_elements ?prog)"
  have prog_eq: "prog = ?prog" using prog by (rule power_rabi_Inr)
  have "xy_name (xy q) \<in> set ?els \<and> resonator_name (resonator q) \<in> set ?els"
    if "q \<in> set qs" for q
  proof -
    from that obtain k where "k < length qs" "q = qs ! k" by (auto simp: in_set_conv_nth)
    then have "(k, q) \<in> set (enumerate 0 qs)" by (simp add: in_set_enumerate_eq)
    then show ?thesis unfolding elements_program by force
  qed
  then have els: "\<forall>q \<in> set qs. xy_name (xy q) \<in> set ?els \<and>
      resonator_name (resonator q) \<in> set ?els" by blast
  from events_program [OF assms(3) els, of sq n_avg as m opn 0 initial_state]
  obtain ess where "events (run sq ?prog) = concat ess"
    "list_all2 (\<lambda>(q, a). sweep_point sq opn q a)
       (concat (map (\<lambda>q. concat (replicate (nat n_avg) (map (Pair q) as))) qs)) ess"
    unfolding run_def by (auto simp: initial_state_def)
  with prog show ?thesis unfolding prog_eq by blast
qed

theorem sweep_point_sequence_witness:
  "[0, 1 / 2 :: real] \<noteq> [] \<and>
   (\<exists>pl. lookup_operation example_qubit ''x180'' = Inr pl) \<and>
   xy_name (xy example_qubit) \<noteq> resonator_name (resonator example_qubit) \<and>
   (\<exists>prog ess. power_rabi example_machine ''x180'' 2 [0, 1 / 2] [example_qubit] = Inr prog \<and>
      events (run example_sequencer prog) = concat ess \<and>
      list_all2 (\<lambda>(q, a). sweep_point example_sequencer ''x180'' q a)
        [(example_qubit, 0), (example_qubit, 1 / 2), (example_qubit, 0), (example_qubit, 1 / 2)]
        ess)"
proof -
  have h: "[0, 1 / 2 :: real] \<noteq> []"
    "\<forall>q \<in> set [example_qubit]. \<exists>pl. lookup_operation q ''x180'' = Inr pl"
    "\<forall>q \<in> set [example_qubit]. xy_name (xy q) \<noteq> resonator_name (resonator q)"
    by (simp_all add: example_qubit_def lookup_operation_def)
  from sweep_point_sequence [OF h, of example_machine 2 example_sequencer] h
  show ?thesis by (simp add: eval_nat_numeral)
qed

text \<open>
  Claim C1. The header of the script describes a pulse repeated \<open>N\<close> times for a swept
  number of pulses. The program for one qubit, one repetition and the pre-factor 1/2
  plays the scaled pulse once before the readout: the variable for the number of pulses is
  declared and never used.
\<close>

theorem single_scaled_pulse_per_readout:
  "\<exists>prog. power_rabi example_machine ''x180'' 1 [1 / 2] [example_qubit] = Inr prog \<and>
     events (run example_sequencer prog) =
       [Pulse ''q1.xy'' ''x180'' (Some 100) None 0 40,
        Pulse ''q1.xy'' ''x180'' (Some 80) (Some (1 / 2)) 40 40,
        Readout ''q1.resonator'' ''readout'' (Some 53) 80 100]"
  by (simp add: run_def power_rabi_def qubit_block_def from_array_def lookup_operation_def
      sweep_body_def initial_state_def example_qubit_def example_sequencer_def gef_shift_def
      enumerate_simps loop_align_def align_elements_def align_time_def)

text \<open>
  Without the alignment at the start of the iterations the drive of the second point
  starts while the resonator still waits, and the readout waits for the resonator.
\<close>

lemma example_timing:
  "\<exists>prog. power_rabi example_machine ''x180'' 1 [0, 1 / 2] [example_qubit] = Inr prog \<and>
     events (run (example_sequencer\<lparr>implicit_align := False\<rparr>) prog) =
       [Pulse ''q1.xy'' ''x180'' (Some 100) None 0 40,
        Pulse ''q1.xy'' ''x180'' (Some 80) (Some 0) 40 40,
        Readout ''q1.resonator'' ''readout'' (Some 53) 80 100,
        Pulse ''q1.xy'' ''x180'' (Some 100) None 80 40,
        Pulse ''q1.xy'' ''x180'' (Some 80) (Some (1 / 2)) 120 40,
        Readout ''q1.resonator'' ''readout'' (Some 53) 430 100]"
  by (simp add: run_def power_rabi_def qubit_block_def from_array_def lookup_operation_def
      sweep_body_def initial_state_def example_qubit_def example_machine_def example_sequencer_def
      gef_shift_def enumerate_simps loop_align_def align_elements_def align_time_def
      coerce_to_integer_def)

subsection \<open>The streams, their averages and the data of the fit\<close>

lemma shots_loop_align [simp]: "shots (loop_align sq body s) = shots s"
  by (simp add: loop_align_def align_elements_def)

lemma I_st_loop_align [simp]: "I_st (loop_align sq body s) = I_st s"
  by (simp add: loop_align_def align_elements_def)

lemma Q_st_loop_align [simp]: "Q_st (loop_align sq body s) = Q_st s"
  by (simp add: loop_align_def align_elements_def)

lemma fold_stream_blocks:
  assumes sh: "\<And>x s. shots (f x s) = shots s + k"
    and st: "\<And>x s. St (f x s) = (St s)(i := St s i @ map v [shots s..<shots s + k])"
  shows "shots (fold f xs s) = shots s + length xs * k \<and>
         St (fold f xs s) = (St s)(i := St s i @ map v [shots s..<shots s + length xs * k])"
proof (induction xs arbitrary: s)
  case Nil
  show ?case by simp
next
  case (Cons x xs)
  have split: "[shots s..<shots s + (k + length xs * k)] =
      [shots s..<shots s + k] @ [shots s + k..<shots s + k + length xs * k]"
    using upt_add_eq_append [of "shots s" "shots s + k" "length xs * k"]
    by (simp add: add.assoc)
  from Cons.IH [of "f x s"] show ?case
    by (auto simp: sh st split fun_eq_iff)
qed

lemma fold_stream_qubits:
  assumes blk: "\<And>i q s. shots (B i q s) = shots s + K \<and>
      St (B i q s) = (St s)(i := St s i @ map v [shots s..<shots s + K])"
  shows "shots (fold (\<lambda>iq. B (fst iq) (snd iq)) (enumerate c qs) s) = shots s + length qs * K \<and>
    (\<forall>j. St (fold (\<lambda>iq. B (fst iq) (snd iq)) (enumerate c qs) s) j =
       (if c \<le> j \<and> j < c + length qs
        then St s j @ map v [shots s + (j - c) * K..<shots s + (j - c) * K + K]
        else St s j))"
proof (induction qs arbitrary: c s)
  case Nil
  show ?case by simp
next
  case (Cons q qs)
  have ar: "shots s + K + (j - Suc c) * K = shots s + (j - c) * K" if "c < j" for j
  proof -
    from that have "j - c = Suc (j - Suc c)" by simp
    then show ?thesis by simp
  qed
  from Cons.IH [of "Suc c" "B c q s"] show ?case
    by (auto simp: blk ar)
qed

lemma buffer_blocks:
  "0 < k \<Longrightarrow> length xs = N * k \<Longrightarrow>
     buffer k xs = map (\<lambda>n. take k (drop (n * k) xs)) [0..<N]"
proof (induction N arbitrary: xs)
  case 0
  then show ?case by (simp add: buffer.simps)
next
  case (Suc N)
  from Suc.prems have len: "length (drop k xs) = N * k" by simp
  from Suc.prems have "buffer k xs = take k xs # buffer k (drop k xs)"
    by (subst buffer.simps) simp
  also have "buffer k (drop k xs) = map (\<lambda>n. take k (drop (n * k) (drop k xs))) [0..<N]"
    using Suc.IH [OF Suc.prems(1) len] .
  also have "\<dots> = map (\<lambda>n. take k (drop (Suc n * k) xs)) [0..<N]"
    by (simp add: add.commute)
  finally show ?case
    by (simp add: map_upt_Suc del: upt_Suc)
qed

lemma save_average: "vs \<noteq> [] \<Longrightarrow> save (average vs) = Some (vector_mean vs)"
  by (simp add: save_def average_def last_map)

lemma vector_mean_blocks:
  assumes "0 < k" "0 < N" "length xs = N * k"
  shows "vector_mean (map (\<lambda>n. take k (drop (n * k) xs)) [0..<N]) =
     map (\<lambda>j. (\<Sum>n = 0..<N. xs ! (n * k + j)) / real N) [0..<k]"
proof -
  let ?vs = "map (\<lambda>n. take k (drop (n * k) xs)) [0..<N]"
  from assms(2) obtain N' where N: "N = Suc N'" by (cases N) auto
  have hdv: "?vs = take k xs # map (\<lambda>n. take k (drop (Suc n * k) xs)) [0..<N']"
    unfolding N by (simp add: map_upt_Suc del: upt_Suc)
  have lenk: "length (take k xs) = k" using assms(3) N by simp
  have vm: "vector_mean ?vs =
      map (\<lambda>j. sum_list (map (\<lambda>w. w ! j) ?vs) / real (length ?vs)) [0..<k]"
  proof -
    have "vector_mean (take k xs # R) =
        map (\<lambda>j. sum_list (map (\<lambda>w. w ! j) (take k xs # R)) / real (length (take k xs # R)))
          [0..<k]" for R
      using lenk by (simp add: vector_mean_def)
    from this [of "map (\<lambda>n. take k (drop (Suc n * k) xs)) [0..<N']"]
    show ?thesis unfolding hdv [symmetric] .
  qed
  have "sum_list (map (\<lambda>w. w ! j) ?vs) = (\<Sum>n = 0..<N. xs ! (n * k + j))" if "j < k" for j
  proof -
    have "xs ! (n * k + j) = take k (drop (n * k) xs) ! j" if "n < N" for n
    proof -
      from \<open>n < N\<close> have "Suc n \<le> N" by simp
      then have "Suc n * k \<le> N * k" by (rule mult_le_mono1)
      then have a: "n * k + k \<le> N * k" by (simp only: mult_Suc add.commute)
      from a \<open>j < k\<close> have "n * k + j < N * k" by linarith
      moreover from a have "n * k \<le> N * k" by linarith
      ultimately have "n * k + j < length xs" "n * k \<le> length xs"
        by (simp_all only: assms(3))
      then show ?thesis using \<open>j < k\<close> by simp
    qed
    then have "map (\<lambda>w. w ! j) ?vs = map (\<lambda>n. xs ! (n * k + j)) [0..<N]"
      by simp
    then show ?thesis by (simp add: interv_sum_list_conv_sum_set_nat)
  qed
  with vm show ?thesis by simp
qed

lemma stream_average:
  assumes "0 < k" "0 < N" "length xs = N * k"
  shows "save (average (buffer k xs)) =
     Some (map (\<lambda>j. (\<Sum>n = 0..<N. xs ! (n * k + j)) / real N) [0..<k])"
proof -
  have "buffer k xs \<noteq> []" using assms by (simp add: buffer_blocks [OF assms(1,3)])
  from save_average [OF this] show ?thesis
    by (simp only: buffer_blocks [OF assms(1,3)] vector_mean_blocks [OF assms])
qed

lemma shots_sweep_body: "shots (fold (exec sq els) (sweep_body m opn i q) s) = Suc (shots s)"
  by (simp add: sweep_body_def align_elements_def)

lemma I_st_sweep_body:
  "I_st (fold (exec sq els) (sweep_body m opn i q) s) =
     (I_st s)(i := I_st s i @ [fst (readout sq (shots s))])"
  by (simp add: sweep_body_def align_elements_def)

lemma Q_st_sweep_body:
  "Q_st (fold (exec sq els) (sweep_body m opn i q) s) =
     (Q_st s)(i := Q_st s i @ [snd (readout sq (shots s))])"
  by (simp add: sweep_body_def align_elements_def)

lemma I_st_For_a:
  "shots (exec sq els (For_a as (sweep_body m opn i q)) s) = shots s + length as \<and>
   I_st (exec sq els (For_a as (sweep_body m opn i q)) s) =
     (I_st s)(i := I_st s i @ map (\<lambda>t. fst (readout sq t)) [shots s..<shots s + length as])"
  unfolding exec.simps
  using fold_stream_blocks [where k = 1 and St = I_st and i = i
      and v = "\<lambda>t. fst (readout sq t)"
      and f = "\<lambda>a s'. fold (exec sq els) (sweep_body m opn i q)
                 (loop_align sq (sweep_body m opn i q) (s'\<lparr>var_a := a\<rparr>))"
      and xs = as and s = s]
  by (simp add: shots_sweep_body I_st_sweep_body)

lemma Q_st_For_a:
  "shots (exec sq els (For_a as (sweep_body m opn i q)) s) = shots s + length as \<and>
   Q_st (exec sq els (For_a as (sweep_body m opn i q)) s) =
     (Q_st s)(i := Q_st s i @ map (\<lambda>t. snd (readout sq t)) [shots s..<shots s + length as])"
  unfolding exec.simps
  using fold_stream_blocks [where k = 1 and St = Q_st and i = i
      and v = "\<lambda>t. snd (readout sq t)"
      and f = "\<lambda>a s'. fold (exec sq els) (sweep_body m opn i q)
                 (loop_align sq (sweep_body m opn i q) (s'\<lparr>var_a := a\<rparr>))"
      and xs = as and s = s]
  by (simp add: shots_sweep_body Q_st_sweep_body)

lemma I_st_qubit_block:
  "shots (fold (exec sq els) [For_n n_avg [Save_n, For_a as (sweep_body m opn i q)], Align] s) =
     shots s + nat n_avg * length as \<and>
   I_st (fold (exec sq els) [For_n n_avg [Save_n, For_a as (sweep_body m opn i q)], Align] s) =
     (I_st s)(i := I_st s i @
        map (\<lambda>t. fst (readout sq t)) [shots s..<shots s + nat n_avg * length as])"
  using fold_stream_blocks [where k = "length as" and St = I_st and i = i
      and v = "\<lambda>t. fst (readout sq t)"
      and f = "\<lambda>j s'. fold (exec sq els) [Save_n, For_a as (sweep_body m opn i q)]
                 (loop_align sq [Save_n, For_a as (sweep_body m opn i q)] (s'\<lparr>var_n := int j\<rparr>))"
      and xs = "[0..<nat n_avg]" and s = s]
  by (simp add: I_st_For_a [unfolded exec.simps] align_elements_def)

lemma Q_st_qubit_block:
  "shots (fold (exec sq els) [For_n n_avg [Save_n, For_a as (sweep_body m opn i q)], Align] s) =
     shots s + nat n_avg * length as \<and>
   Q_st (fold (exec sq els) [For_n n_avg [Save_n, For_a as (sweep_body m opn i q)], Align] s) =
     (Q_st s)(i := Q_st s i @
        map (\<lambda>t. snd (readout sq t)) [shots s..<shots s + nat n_avg * length as])"
  using fold_stream_blocks [where k = "length as" and St = Q_st and i = i
      and v = "\<lambda>t. snd (readout sq t)"
      and f = "\<lambda>j s'. fold (exec sq els) [Save_n, For_a as (sweep_body m opn i q)]
                 (loop_align sq [Save_n, For_a as (sweep_body m opn i q)] (s'\<lparr>var_n := int j\<rparr>))"
      and xs = "[0..<nat n_avg]" and s = s]
  by (simp add: Q_st_For_a [unfolded exec.simps] align_elements_def)

lemma saved_streams:
  assumes "0 < n_avg" "as \<noteq> []" "i < length qs"
    and prog: "power_rabi m opn n_avg as qs = Inr prog"
  shows "res_I (stream_processing as (run sq prog)) i =
      Some (map (\<lambda>j. (\<Sum>n = 0..<nat n_avg.
                       fst (readout sq ((i * nat n_avg + n) * length as + j))) /
                    real (nat n_avg)) [0..<length as]) \<and>
    res_Q (stream_processing as (run sq prog)) i =
      Some (map (\<lambda>j. (\<Sum>n = 0..<nat n_avg.
                       snd (readout sq ((i * nat n_avg + n) * length as + j))) /
                    real (nat n_avg)) [0..<length as])"
proof -
  let ?N = "nat n_avg" and ?k = "length as"
  let ?K = "?N * ?k"
  let ?s = "run sq prog"
  let ?els = "concat (map stmt_elements prog)"
  have N: "0 < ?N" and k: "0 < ?k" using assms by simp_all
  from prog have prog_eq: "prog = concat (map (\<lambda>iq.
      [For_n n_avg [Save_n, For_a as (sweep_body m opn (fst iq) (snd iq))], Align])
      (enumerate 0 qs))" by (rule power_rabi_Inr)
  have run_eq: "?s = fold (\<lambda>iq. fold (exec sq ?els)
        [For_n n_avg [Save_n, For_a as (sweep_body m opn (fst iq) (snd iq))], Align])
      (enumerate 0 qs) initial_state"
    unfolding run_def by (subst (2) prog_eq) (simp only: fold_concat_map)
  have idx: "i * ?K + (n * ?k + j) = (i * ?N + n) * ?k + j" for n j
    by (simp add: algebra_simps)
  have avg: "save (average (buffer ?k (map v [i * ?K..<i * ?K + ?K]))) =
      Some (map (\<lambda>j. (\<Sum>n = 0..<?N. v ((i * ?N + n) * ?k + j)) / real ?N) [0..<?k])"
    for v :: "nat \<Rightarrow> real"
  proof -
    let ?xs = "map v [i * ?K..<i * ?K + ?K]"
    have len: "length ?xs = ?N * ?k" by simp
    have "?xs ! (n * ?k + j) = v ((i * ?N + n) * ?k + j)" if "n < ?N" "j < ?k" for n j
    proof -
      from that(1) have "Suc n \<le> ?N" by simp
      then have "Suc n * ?k \<le> ?N * ?k" by (rule mult_le_mono1)
      then have "n * ?k + ?k \<le> ?K" by (simp only: mult_Suc add.commute)
      with that(2) have lt: "n * ?k + j < ?K" by linarith
      then have "[i * ?K..<i * ?K + ?K] ! (n * ?k + j) = i * ?K + (n * ?k + j)"
        by (intro nth_upt) simp
      with lt show ?thesis by (simp only: nth_map length_upt add_diff_cancel_left' idx)
    qed
    then have "map (\<lambda>j. (\<Sum>n = 0..<?N. ?xs ! (n * ?k + j)) / real ?N) [0..<?k] =
        map (\<lambda>j. (\<Sum>n = 0..<?N. v ((i * ?N + n) * ?k + j)) / real ?N) [0..<?k]"
      by simp
    with stream_average [OF k N len] show ?thesis by simp
  qed
  have I: "I_st ?s i = map (\<lambda>t. fst (readout sq t)) [i * ?K..<i * ?K + ?K]"
    unfolding run_eq
    using fold_stream_qubits [where St = I_st and K = ?K and v = "\<lambda>t. fst (readout sq t)"
        and B = "\<lambda>i q. fold (exec sq ?els)
          [For_n n_avg [Save_n, For_a as (sweep_body m opn i q)], Align]"
        and c = 0 and qs = qs and s = initial_state, OF I_st_qubit_block] assms(3)
    by (simp add: initial_state_def)
  have Q: "Q_st ?s i = map (\<lambda>t. snd (readout sq t)) [i * ?K..<i * ?K + ?K]"
    unfolding run_eq
    using fold_stream_qubits [where St = Q_st and K = ?K and v = "\<lambda>t. snd (readout sq t)"
        and B = "\<lambda>i q. fold (exec sq ?els)
          [For_n n_avg [Save_n, For_a as (sweep_body m opn i q)], Align]"
        and c = 0 and qs = qs and s = initial_state, OF Q_st_qubit_block] assms(3)
    by (simp add: initial_state_def)
  show ?thesis
    by (simp only: stream_processing_def result_handles.simps I Q avg simp_thms)
qed

lemma fetch_all_map:
  "(\<And>i. i \<in> set is \<Longrightarrow> h i = Some (v i)) \<Longrightarrow> fetch_all h is = Inr (map v is)"
  by (induction "is") simp_all

lemma abs_amp_ops:
  "abs_amp opn as qs = Inr rows \<Longrightarrow> q \<in> set qs \<Longrightarrow> \<exists>pl. lookup_operation q opn = Inr pl"
  by (induction qs arbitrary: rows) (auto split: sum.splits)

lemma zip_map_same: "zip (map f xs) (map g xs) = map (\<lambda>x. (f x, g x)) xs"
  by (induction xs) simp_all

lemma IQ_abs_map:
  "IQ_abs (map f xs) (map g xs) = map (\<lambda>x. sqrt ((f x)\<^sup>2 + (g x)\<^sup>2)) xs"
  by (simp add: IQ_abs_def zip_map_same)

lemma fitted_data_value:
  assumes "0 < n_avg" "as \<noteq> []" "abs_amp opn as qs = Inr rows"
    and prog: "power_rabi m opn n_avg as qs = Inr prog"
  shows "fitted_data sq opn qs as prog =
     Inr \<lparr>da_qubit = map name qs, da_amp = as, da_abs_amp = rows,
          da_values = map (\<lambda>i. map (\<lambda>j.
            sqrt (((\<Sum>n = 0..<nat n_avg.
                      fst (readout sq ((i * nat n_avg + n) * length as + j))) /
                   real (nat n_avg))\<^sup>2 +
                  ((\<Sum>n = 0..<nat n_avg.
                      snd (readout sq ((i * nat n_avg + n) * length as + j))) /
                   real (nat n_avg))\<^sup>2)) [0..<length as]) [0..<length qs]\<rparr>"
proof -
  let ?I = "\<lambda>i j. (\<Sum>n = 0..<nat n_avg.
      fst (readout sq ((i * nat n_avg + n) * length as + j))) / real (nat n_avg)"
  let ?Q = "\<lambda>i j. (\<Sum>n = 0..<nat n_avg.
      snd (readout sq ((i * nat n_avg + n) * length as + j))) / real (nat n_avg)"
  let ?rh = "stream_processing as (run sq prog)"
  have I: "fetch_all (res_I ?rh) [0..<length qs] =
      Inr (map (\<lambda>i. map (?I i) [0..<length as]) [0..<length qs])"
    by (rule fetch_all_map) (simp add: saved_streams [OF assms(1,2) _ prog])
  have Q: "fetch_all (res_Q ?rh) [0..<length qs] =
      Inr (map (\<lambda>i. map (?Q i) [0..<length as]) [0..<length qs])"
    by (rule fetch_all_map) (simp add: saved_streams [OF assms(1,2) _ prog])
  show ?thesis
    by (simp add: fitted_data_def fetch_results_as_xarray_def I Q assms(3) zip_map_same
        IQ_abs_map)
qed

lemma example_qubits_node:
  "get_qubits example_machine example_Parameters = Inr [example_qubit]"
  by (simp add: get_qubits_def get_qubit_def example_machine_def example_Parameters_def
      default_Parameters_def ensure_GEF_def example_qubit_def)

lemma sqrt_25: "sqrt 25 = 5" "sqrt 100 = 10"
  by (rule real_sqrt_unique; simp)+

text \<open>
  Claim C7. For a positive number of averages, a sweep that is not empty and qubits that
  have the operation, the array handed to the oscillation fit holds, for every qubit and
  every amplitude of the sweep, one value: the modulus of the means of \<^verbatim>\<open>I\<close> and \<^verbatim>\<open>Q\<close>,
  each mean taken over all repetitions of the measurement at that amplitude (the
  measurement of repetition \<open>n\<close> at the \<open>j\<close>-th amplitude of the qubit at position \<open>i\<close> is
  the one numbered \<open>(i * n_avg + n) * length as + j\<close> of the run). The script calls the
  fit on this array and on nothing else.
\<close>

theorem averaged_trace:
  assumes "get_qubits m p = Inr qs" "amps p = Inr as" "as \<noteq> []" "0 < num_averages p"
    and "abs_amp (operation p) as qs = Inr rows"
  shows "\<exists>prog d. power_rabi m (operation p) (num_averages p) as qs = Inr prog \<and>
     fitted_data sq (operation p) qs as prog = Inr d \<and>
     run_node sq m p fit_osc = run_node sq m p (\<lambda>_. fit_osc d) \<and>
     da_qubit d = map name qs \<and> da_amp d = as \<and>
     da_values d = map (\<lambda>i. map (\<lambda>j.
       sqrt (((\<Sum>n = 0..<nat (num_averages p).
                 fst (readout sq ((i * nat (num_averages p) + n) * length as + j))) /
              real (nat (num_averages p)))\<^sup>2 +
             ((\<Sum>n = 0..<nat (num_averages p).
                 snd (readout sq ((i * nat (num_averages p) + n) * length as + j))) /
              real (nat (num_averages p)))\<^sup>2)) [0..<length as]) [0..<length qs]"
proof -
  from power_rabi_total [OF assms(3) abs_amp_ops [OF assms(5)]] obtain prog where
    prog: "power_rabi m (operation p) (num_averages p) as qs = Inr prog" by blast
  define d where "d = \<lparr>da_qubit = map name qs, da_amp = as, da_abs_amp = rows,
       da_values = map (\<lambda>i. map (\<lambda>j.
         sqrt (((\<Sum>n = 0..<nat (num_averages p).
                   fst (readout sq ((i * nat (num_averages p) + n) * length as + j))) /
                real (nat (num_averages p)))\<^sup>2 +
               ((\<Sum>n = 0..<nat (num_averages p).
                   snd (readout sq ((i * nat (num_averages p) + n) * length as + j))) /
                real (nat (num_averages p)))\<^sup>2)) [0..<length as]) [0..<length qs]\<rparr>"
  have fd: "fitted_data sq (operation p) qs as prog = Inr d"
    unfolding d_def by (rule fitted_data_value [OF assms(4,3,5) prog])
  have rn: "run_node sq m p fit_osc = run_node sq m p (\<lambda>_. fit_osc d)"
    by (simp add: run_node_def assms(1,2) prog fd)
  have sel: "da_qubit d = map name qs" "da_amp d = as"
    "da_values d = map (\<lambda>i. map (\<lambda>j.
         sqrt (((\<Sum>n = 0..<nat (num_averages p).
                   fst (readout sq ((i * nat (num_averages p) + n) * length as + j))) /
                real (nat (num_averages p)))\<^sup>2 +
               ((\<Sum>n = 0..<nat (num_averages p).
                   snd (readout sq ((i * nat (num_averages p) + n) * length as + j))) /
                real (nat (num_averages p)))\<^sup>2)) [0..<length as]) [0..<length qs]"
    by (simp_all add: d_def)
  from prog fd rn sel show ?thesis by blast
qed

theorem averaged_trace_witness:
  "get_qubits example_machine example_Parameters = Inr [example_qubit] \<and>
   amps example_Parameters = Inr [0, 1] \<and> [0, 1 :: real] \<noteq> [] \<and>
   0 < num_averages example_Parameters \<and>
   abs_amp (operation example_Parameters) [0, 1] [example_qubit] = Inr [[0, 1 / 10]] \<and>
   (\<exists>prog d. power_rabi example_machine ''x180'' 2 [0, 1] [example_qubit] = Inr prog \<and>
      fitted_data example_sequencer ''x180'' [example_qubit] [0, 1] prog = Inr d \<and>
      run_node example_sequencer example_machine example_Parameters example_fit_osc =
        run_node example_sequencer example_machine example_Parameters (\<lambda>_. example_fit_osc d) \<and>
      da_qubit d = [''q1''] \<and> da_amp d = [0, 1] \<and> da_values d = [[5, 10]])"
proof -
  have P: "operation example_Parameters = ''x180''" "num_averages example_Parameters = 2"
    by (simp_all add: example_Parameters_def default_Parameters_def)
  have h: "amps example_Parameters = Inr [0, 1]" "[0, 1 :: real] \<noteq> []"
    "0 < num_averages example_Parameters"
    "abs_amp (operation example_Parameters) [0, 1] [example_qubit] = Inr [[0, 1 / 10]]"
    by (simp_all add: amps_def arange_def example_Parameters_def default_Parameters_def
        fl_numerals fl_zero Let_def upt_rec lookup_operation_def example_qubit_def)
  from averaged_trace [OF example_qubits_node h, of example_sequencer example_fit_osc,
      unfolded P] example_qubits_node h
  show ?thesis
    by (simp add: example_sequencer_def example_readout_def example_qubit_def
        eval_nat_numeral sqrt_25)
qed

section \<open>Properties of the cross-resonance analysis\<close>

lemma map_of_dict_const:
  "map_of (fold (\<lambda>(k, v). AList.update k v) (map (\<lambda>qp. (qp, c)) qps) acc) k =
     (if k \<in> set qps then Some c else map_of acc k)"
  by (induction qps arbitrary: acc) (auto simp: update_conv')

lemma distinct_dict:
  "distinct (map fst acc) \<Longrightarrow> distinct (map fst (fold (\<lambda>(k, v). AList.update k v) kvs acc))"
  by (induction kvs arbitrary: acc) (auto simp: distinct_update)

lemma keys_dict_const:
  "fst ` set (fold (\<lambda>(k, v). AList.update k v) (map (\<lambda>qp. (qp, c)) qps) acc) =
     fst ` set acc \<union> set qps"
proof -
  have "dom (map_of (fold (\<lambda>(k, v). AList.update k v) (map (\<lambda>qp. (qp, c)) qps) acc)) =
      dom (map_of acc) \<union> set qps"
    by (auto simp: map_of_dict_const dom_def split: if_splits)
  then show ?thesis by (simp add: dom_map_of_conv_image_fst)
qed

lemma map_of_fold_update:
  "map_of (fold (\<lambda>(k, v). AList.update k v) kvs acc) = map_of acc ++ map_of (rev kvs)"
proof (induction kvs arbitrary: acc)
  case Nil
  show ?case by simp
next
  case (Cons kv kvs)
  obtain k v where kv: "kv = (k, v)" by (cases kv)
  have "map_of (fold (\<lambda>(k, v). AList.update k v) (kv # kvs) acc) =
      map_of (AList.update k v acc) ++ map_of (rev kvs)"
    by (simp add: kv Cons.IH)
  also have "\<dots> = (map_of acc ++ [k \<mapsto> v]) ++ map_of (rev kvs)"
    by (simp add: update_conv')
  also have "\<dots> = map_of acc ++ map_of (rev (kv # kvs))"
    by (simp add: kv)
  finally show ?case .
qed

lemma map_of_rev_distinct: "distinct (map fst xs) \<Longrightarrow> map_of (rev xs) = map_of xs"
proof (induction xs)
  case Nil
  show ?case by simp
next
  case (Cons x xs)
  obtain k v where x: "x = (k, v)" by (cases x)
  from Cons.prems have k: "k \<notin> dom (map_of xs)" and d: "distinct (map fst xs)"
    by (simp_all add: x dom_map_of_conv_image_fst)
  have "map_of (rev (x # xs)) = [k \<mapsto> v] ++ map_of xs"
    by (simp add: x Cons.IH [OF d])
  also have "\<dots> = map_of xs ++ [k \<mapsto> v]"
    using k by (intro map_add_comm) simp
  also have "\<dots> = map_of (x # xs)" by (simp add: x)
  finally show ?case .
qed

lemma map_of_dict_of: "map_of (dict_of kvs) = map_of (rev kvs)"
  by (simp add: dict_of_def map_of_fold_update)

lemma coords_assign: "coords (assign ds d) = coords ds"
  by (simp add: assign_def)

lemma dims_assign: "dims (assign ds d) = dims ds"
  by (simp add: assign_def)

lemma data_vars_assign:
  "map_of (data_vars (assign ds (dict_of kvs))) = map_of (data_vars ds) ++ map_of (rev kvs)"
proof -
  have "distinct (map fst (dict_of kvs))"
    unfolding dict_of_def by (rule distinct_dict) simp
  then have "map_of (rev (dict_of kvs)) = map_of (rev kvs)"
    by (simp only: map_of_rev_distinct map_of_dict_of)
  then show ?thesis by (simp add: assign_def map_of_fold_update)
qed

lemma qubit_pair_values_coords:
  "map_of (coords fit) ''qubit_pair'' = Some qps \<Longrightarrow> qubit_pair_values fit = Inr (map Str qps)"
  by (simp add: qubit_pair_values_def)

text \<open>
  Claim C9. For every dataset with a \<^verbatim>\<open>qubit_pair\<close> coordinate, whatever its data,
  \<^verbatim>\<open>fit_raw_data\<close> returns what \<^verbatim>\<open>_extract_relevant_fit_parameters\<close> returns on the
  extended dataset: one result for every qubit pair and for nothing else, each with
  \<^verbatim>\<open>success = True\<close>.
\<close>

theorem fit_reports_success:
  assumes "map_of (coords ds) ''qubit_pair'' = Some qps"
  shows "\<exists>fit res. fit_raw_data ds nd = Inr (fit, res) \<and>
     extract_relevant_fit_parameters fit nd = Inr (fit, res) \<and>
     fst ` set res = Str ` set qps \<and> list_all (\<lambda>(qp, r). success r) res"
proof -
  let ?res = "dict_of (map (\<lambda>qp. (qp, \<lparr>success = True\<rparr>)) (map Str qps))"
  have keys: "fst ` set ?res = Str ` set qps"
    using keys_dict_const [of "\<lparr>success = True\<rparr>" "map Str qps" "[]"]
    by (simp add: dict_of_def)
  have "success r" if "(qp, r) \<in> set ?res" for qp r
  proof -
    have "distinct (map fst ?res)" unfolding dict_of_def by (rule distinct_dict) simp
    with that have "map_of ?res qp = Some r" by simp
    then show ?thesis
      by (auto simp: dict_of_def map_of_dict_const simp del: map_map split: if_splits)
  qed
  then have "list_all (\<lambda>(qp, r). success r) ?res"
    by (auto simp: list_all_iff)
  with keys assms show ?thesis
    by (simp add: fit_raw_data_def extract_relevant_fit_parameters_def
        qubit_pair_values_coords coords_assign Let_def)
qed

theorem fit_reports_success_witness:
  "map_of (coords (example_ds [0, 1])) ''qubit_pair'' = Some [''q1-q2''] \<and>
   (\<exists>fit res. fit_raw_data (example_ds [0, 1]) () = Inr (fit, res) \<and>
      extract_relevant_fit_parameters fit () = Inr (fit, res) \<and>
      fst ` set res = Str ` set [''q1-q2''] \<and> list_all (\<lambda>(qp, r). success r) res)"
proof -
  have h: "map_of (coords (example_ds [0, 1])) ''qubit_pair'' = Some [''q1-q2'']"
    by (simp add: example_ds_def)
  from fit_reports_success [OF h, of "()"] h show ?thesis by blast
qed

text \<open>
  Claim C2, as stated, fails: two datasets with different traces get the same fit
  results, and the result of the qubit pair holds the flag \<^verbatim>\<open>success\<close> and nothing else, so
  no amplitude and no phase is taken from the traces.
\<close>

theorem fit_results_ignore_traces:
  "map_sum id snd (fit_raw_data (example_ds [0, 1]) ()) =
     Inr [(Str ''q1-q2'', \<lparr>success = True\<rparr>)] \<and>
   map_sum id snd (fit_raw_data (example_ds [1, 0]) ()) =
     Inr [(Str ''q1-q2'', \<lparr>success = True\<rparr>)] \<and>
   data_vars (example_ds [0, 1]) \<noteq> data_vars (example_ds [1, 0])"
  by (simp add: fit_raw_data_def extract_relevant_fit_parameters_def qubit_pair_values_def
      coords_assign Let_def example_ds_def dict_of_def)

lemma example_bloch:
  "fit_raw_data (example_ds [0, 1, 1 / 2]) () =
     Inr (\<lparr>data_vars = [(''I_target'', [0, 1, 1 / 2]), (''Q_target'', [0, 1, 1 / 2]),
             (''state_target'', [0, 1, 1 / 2]), (''bloch_target'', [1, - 1, 0])],
           coords = [(''qubit_pair'', [''q1-q2''])], dims = [(''qubit_pair'', 1)]\<rparr>,
          [(Str ''q1-q2'', \<lparr>success = True\<rparr>)])"
  by (simp add: fit_raw_data_def extract_relevant_fit_parameters_def qubit_pair_values_def
      assign_def Let_def example_ds_def dict_of_def replace_str.simps)

text \<open>
  Claim C2, amended. For every dataset with a \<^verbatim>\<open>qubit_pair\<close> coordinate, the fit results
  hold for every qubit pair, and for nothing else, the flag \<^verbatim>\<open>success = True\<close> only, and
  they are the same for every content of the data variables. The returned dataset has the
  coordinates and the dimensions of the input, and its data variables are those of the
  input overwritten, for every variable \<open>v\<close> with \<^verbatim>\<open>state\<close> in its name, by \<open>-2 v + 1\<close>
  under the name with \<^verbatim>\<open>state\<close> replaced by \<^verbatim>\<open>bloch\<close>, the last one where two new names
  are equal.
\<close>

theorem fit_results_only_success:
  assumes "map_of (coords ds) ''qubit_pair'' = Some qps"
  shows "\<exists>fit res. fit_raw_data ds nd = Inr (fit, res) \<and>
     coords fit = coords ds \<and> dims fit = dims ds \<and>
     map_of (data_vars fit) =
       map_of (data_vars ds) ++
       map_of (rev (map (\<lambda>(col, v). (replace_str ''state'' ''bloch'' col,
                                       map (\<lambda>x. - 2 * x + 1) v))
                      (filter (\<lambda>(col, v). contains ''state'' col) (data_vars ds)))) \<and>
     fst ` set res = Str ` set qps \<and>
     (\<forall>qp \<in> set qps. map_of res (Str qp) = Some \<lparr>success = True\<rparr>) \<and>
     (\<forall>dv. map_sum id snd (fit_raw_data (ds\<lparr>data_vars := dv\<rparr>) nd) = Inr res)"
proof -
  let ?kvs = "map (\<lambda>(col, v). (replace_str ''state'' ''bloch'' col, map (\<lambda>x. - 2 * x + 1) v))
      (filter (\<lambda>(col, v). contains ''state'' col) (data_vars ds))"
  let ?fit = "assign ds (dict_of ?kvs)"
  let ?res = "dict_of (map (\<lambda>qp. (qp, \<lparr>success = True\<rparr>)) (map Str qps))"
  have val: "fit_raw_data ds nd = Inr (?fit, ?res)"
    using assms
    by (simp add: fit_raw_data_def extract_relevant_fit_parameters_def
        qubit_pair_values_coords coords_assign Let_def)
  have keys: "fst ` set ?res = Str ` set qps"
    using keys_dict_const [of "\<lparr>success = True\<rparr>" "map Str qps" "[]"]
    by (simp add: dict_of_def)
  have each: "\<forall>qp \<in> set qps. map_of ?res (Str qp) = Some \<lparr>success = True\<rparr>"
    by (simp add: dict_of_def map_of_dict_const del: map_map)
  have same: "\<forall>dv. map_sum id snd (fit_raw_data (ds\<lparr>data_vars := dv\<rparr>) nd) = Inr ?res"
    using assms
    by (simp add: fit_raw_data_def extract_relevant_fit_parameters_def
        qubit_pair_values_coords coords_assign Let_def)
  have ds: "coords ?fit = coords ds" "dims ?fit = dims ds"
    "map_of (data_vars ?fit) = map_of (data_vars ds) ++ map_of (rev ?kvs)"
    by (simp_all only: coords_assign dims_assign data_vars_assign)
  from val ds keys each same show ?thesis by blast
qed

theorem fit_results_only_success_witness:
  "map_of (coords (example_ds [0, 1, 1 / 2])) ''qubit_pair'' = Some [''q1-q2''] \<and>
   (\<exists>fit res. fit_raw_data (example_ds [0, 1, 1 / 2]) () = Inr (fit, res) \<and>
     data_vars fit = [(''I_target'', [0, 1, 1 / 2]), (''Q_target'', [0, 1, 1 / 2]),
       (''state_target'', [0, 1, 1 / 2]), (''bloch_target'', [1, - 1, 0])] \<and>
     res = [(Str ''q1-q2'', \<lparr>success = True\<rparr>)] \<and>
     (\<forall>dv. map_sum id snd (fit_raw_data (example_ds [0, 1, 1 / 2]\<lparr>data_vars := dv\<rparr>) ()) =
        Inr res))"
proof -
  have h: "map_of (coords (example_ds [0, 1, 1 / 2])) ''qubit_pair'' = Some [''q1-q2'']"
    by (simp add: example_ds_def)
  from fit_results_only_success [OF h, of "()"] obtain fit res where
    r: "fit_raw_data (example_ds [0, 1, 1 / 2]) () = Inr (fit, res)"
      "\<forall>dv. map_sum id snd (fit_raw_data (example_ds [0, 1, 1 / 2]\<lparr>data_vars := dv\<rparr>) ()) =
         Inr res"
    by blast
  from r(1) have "data_vars fit = [(''I_target'', [0, 1, 1 / 2]), (''Q_target'', [0, 1, 1 / 2]),
       (''state_target'', [0, 1, 1 / 2]), (''bloch_target'', [1, - 1, 0])]"
    "res = [(Str ''q1-q2'', \<lparr>success = True\<rparr>)]"
    by (auto simp: example_bloch)
  with h r show ?thesis by blast
qed

section \<open>Properties of the state update\<close>

lemma ef_name_neq: "ef_operation_name opn \<noteq> opn"
proof
  assume "ef_operation_name opn = opn"
  then have "length (ef_operation_name opn) = length opn" by simp
  then show False by (simp add: ef_operation_name_def)
qed

lemma update_operation_None:
  assumes "map_of (operations (xy q)) (ef_operation_name opn) = None"
    and "map_of (operations (xy q)) opn = Some p0"
  shows "update_operation opn a q =
     Inr (q\<lparr>xy := (xy q)\<lparr>operations :=
       AList.update (ef_operation_name opn)
         \<lparr>amplitude = a, alpha = alpha p0, anharmonicity = anharmonicity p0,
          length_ns = length_ns p0, axis_angle = 0, digital_marker = digital_marker p0\<rparr>
         (operations (xy q))\<rparr>\<rparr>)"
  using assms by (simp add: update_operation_def)

lemma update_operation_None_fail:
  assumes "map_of (operations (xy q)) (ef_operation_name opn) = None"
    and "map_of (operations (xy q)) opn = None"
  shows "update_operation opn a q = Inl KeyError"
  using assms by (simp add: update_operation_def)

lemma update_operation_Some:
  assumes "map_of (operations (xy q)) (ef_operation_name opn) = Some ef0"
  shows "update_operation opn a q =
     Inr (q\<lparr>xy := (xy q)\<lparr>operations :=
       AList.update (ef_operation_name opn) (ef0\<lparr>amplitude := a\<rparr>) (operations (xy q))\<rparr>\<rparr>)"
  using assms by (simp add: update_operation_def)

lemma update_operation_ef:
  assumes "update_operation opn a q = Inr q'"
  shows "\<exists>pl. map_of (operations (xy q')) (ef_operation_name opn) = Some pl \<and> amplitude pl = a \<and>
     (case map_of (operations (xy q)) (ef_operation_name opn) of
        None \<Rightarrow> (\<exists>p0. map_of (operations (xy q)) opn = Some p0 \<and>
          pl = \<lparr>amplitude = a, alpha = alpha p0, anharmonicity = anharmonicity p0,
                length_ns = length_ns p0, axis_angle = 0, digital_marker = digital_marker p0\<rparr>)
      | Some ef0 \<Rightarrow> pl = ef0\<lparr>amplitude := a\<rparr>)"
proof (cases "map_of (operations (xy q)) (ef_operation_name opn)")
  case None
  show ?thesis
  proof (cases "map_of (operations (xy q)) opn")
    case N2: None
    from update_operation_None_fail [OF None N2, of a] assms show ?thesis by simp
  next
    case (Some p0)
    from update_operation_None [OF None Some, of a] assms
    have "operations (xy q') = AList.update (ef_operation_name opn)
         \<lparr>amplitude = a, alpha = alpha p0, anharmonicity = anharmonicity p0,
          length_ns = length_ns p0, axis_angle = 0, digital_marker = digital_marker p0\<rparr>
         (operations (xy q))" by auto
    with None Some show ?thesis by (simp add: update_conv')
  qed
next
  case (Some ef0)
  from update_operation_Some [OF Some, of a] assms
  have "operations (xy q') =
      AList.update (ef_operation_name opn) (ef0\<lparr>amplitude := a\<rparr>) (operations (xy q))"
    by auto
  with Some show ?thesis by (simp add: update_conv')
qed

lemma update_operation_keeps:
  assumes "update_operation opn a q = Inr q'"
  shows "map_of (operations (xy q')) opn = map_of (operations (xy q)) opn"
proof -
  have "\<exists>v. operations (xy q') = AList.update (ef_operation_name opn) v (operations (xy q))"
  proof (cases "map_of (operations (xy q)) (ef_operation_name opn)")
    case None
    show ?thesis
    proof (cases "map_of (operations (xy q)) opn")
      case N2: None
      from update_operation_None_fail [OF None N2, of a] assms show ?thesis by simp
    next
      case (Some p0)
      from update_operation_None [OF None Some, of a] assms show ?thesis by auto
    qed
  next
    case (Some ef0)
    from update_operation_Some [OF Some, of a] assms show ?thesis by auto
  qed
  then obtain v where
    "operations (xy q') = AList.update (ef_operation_name opn) v (operations (xy q))" by blast
  with ef_name_neq [of opn] show ?thesis by (simp add: update_conv')
qed

lemma update_operation_idem:
  assumes "update_operation opn a q = Inr q'"
  shows "update_operation opn a q' = Inr q'"
proof -
  from update_operation_ef [OF assms] obtain pl where
    pl: "map_of (operations (xy q')) (ef_operation_name opn) = Some pl" "amplitude pl = a"
    by blast
  from pl(2) have same: "pl\<lparr>amplitude := a\<rparr> = pl" by simp
  have "AList.update (ef_operation_name opn) pl (operations (xy q')) = operations (xy q')"
    using pl(1) by (rule update_triv)
  with update_operation_Some [OF pl(1), of a] same show ?thesis by simp
qed

lemma update_operation_total:
  assumes "map_of (operations (xy q)) opn \<noteq> None"
  shows "\<exists>q'. update_operation opn a q = Inr q'"
proof (cases "map_of (operations (xy q)) (ef_operation_name opn)")
  case None
  from assms obtain p0 where "map_of (operations (xy q)) opn = Some p0" by auto
  from update_operation_None [OF None this] show ?thesis by blast
next
  case (Some ef0)
  from update_operation_Some [OF Some] show ?thesis by blast
qed

lemma update_state_Cons:
  assumes "update_state m opn res (x # qs) = Inr m'"
  shows "\<exists>cur a cur'. map_of (qubits m) (name x) = Some cur \<and> map_of res (name x) = Some a \<and>
     update_operation opn a cur = Inr cur' \<and>
     update_state (m\<lparr>qubits := AList.update (name x) cur' (qubits m)\<rparr>) opn res qs = Inr m'"
proof (cases "map_of (qubits m) (name x)")
  case None
  with assms show ?thesis by simp
next
  case cur: (Some cur)
  show ?thesis
  proof (cases "map_of res (name x)")
    case None
    with assms cur show ?thesis by simp
  next
    case a: (Some a)
    show ?thesis
    proof (cases "update_operation opn a cur")
      case (Inl e)
      with assms cur a show ?thesis by simp
    next
      case (Inr cur')
      with assms cur a show ?thesis by simp
    qed
  qed
qed

lemma update_state_other:
  "update_state m opn res qs = Inr m' \<Longrightarrow> k \<notin> name ` set qs \<Longrightarrow>
     map_of (qubits m') k = map_of (qubits m) k"
proof (induction qs arbitrary: m)
  case Nil
  then show ?case by simp
next
  case (Cons x qs)
  from update_state_Cons [OF Cons.prems(1)] obtain cur' where
    rest: "update_state (m\<lparr>qubits := AList.update (name x) cur' (qubits m)\<rparr>) opn res qs = Inr m'"
    by blast
  from Cons.prems(2) have "k \<notin> name ` set qs" "k \<noteq> name x" by auto
  with Cons.IH [OF rest] show ?case by (simp add: update_conv')
qed

lemma update_state_entry:
  assumes "update_state m opn res qs = Inr m'" "k \<in> name ` set qs"
  shows "\<exists>cur a cur'. map_of (qubits m) k = Some cur \<and> map_of res k = Some a \<and>
     update_operation opn a cur = Inr cur' \<and> map_of (qubits m') k = Some cur'"
  using assms
proof (induction qs arbitrary: m)
  case Nil
  then show ?case by simp
next
  case (Cons x qs)
  from update_state_Cons [OF Cons.prems(1)] obtain cur a cur' where
    cur: "map_of (qubits m) (name x) = Some cur"
    and a: "map_of res (name x) = Some a"
    and cur': "update_operation opn a cur = Inr cur'"
    and rest: "update_state (m\<lparr>qubits := AList.update (name x) cur' (qubits m)\<rparr>) opn res qs = Inr m'"
    by blast
  let ?m1 = "m\<lparr>qubits := AList.update (name x) cur' (qubits m)\<rparr>"
  show ?case
  proof (cases "k \<in> name ` set qs")
    case True
    from Cons.IH [OF rest True] obtain c1 a1 c1' where
      c1: "map_of (qubits ?m1) k = Some c1" "map_of res k = Some a1"
        "update_operation opn a1 c1 = Inr c1'" "map_of (qubits m') k = Some c1'"
      by blast
    show ?thesis
    proof (cases "k = name x")
      case True
      with c1(1) have "c1 = cur'" by (simp add: update_conv')
      moreover from True c1(2) a have "a1 = a" by simp
      ultimately have "c1' = cur'" using c1(3) update_operation_idem [OF cur'] by simp
      with True cur a cur' c1(4) show ?thesis by simp
    next
      case False
      with c1 show ?thesis by (simp add: update_conv')
    qed
  next
    case False
    with Cons.prems(2) have k: "k = name x" by simp
    from update_state_other [OF rest False] have "map_of (qubits m') k = Some cur'"
      by (simp add: k update_conv')
    with k cur a cur' show ?thesis by simp
  qed
qed

lemma update_state_total:
  assumes "\<And>q. q \<in> set qs \<Longrightarrow>
      \<exists>cur. map_of (qubits m) (name q) = Some cur \<and> map_of (operations (xy cur)) opn \<noteq> None"
    and "\<And>q. q \<in> set qs \<Longrightarrow> map_of res (name q) \<noteq> None"
  shows "\<exists>m'. update_state m opn res qs = Inr m'"
  using assms
proof (induction qs arbitrary: m)
  case Nil
  show ?case by simp
next
  case (Cons x qs)
  from Cons.prems(1) [of x] obtain cur where
    cur: "map_of (qubits m) (name x) = Some cur" "map_of (operations (xy cur)) opn \<noteq> None"
    by auto
  from Cons.prems(2) [of x] obtain a where a: "map_of res (name x) = Some a" by auto
  from update_operation_total [OF cur(2)] obtain cur' where
    cur': "update_operation opn a cur = Inr cur'" by blast
  let ?m1 = "m\<lparr>qubits := AList.update (name x) cur' (qubits m)\<rparr>"
  have "\<exists>c. map_of (qubits ?m1) (name q) = Some c \<and> map_of (operations (xy c)) opn \<noteq> None"
    if "q \<in> set qs" for q
  proof (cases "name q = name x")
    case True
    with cur(2) update_operation_keeps [OF cur'] show ?thesis by (simp add: update_conv')
  next
    case False
    with Cons.prems(1) [of q] that show ?thesis by (simp add: update_conv')
  qed
  moreover have "map_of res (name q) \<noteq> None" if "q \<in> set qs" for q
    using Cons.prems(2) [of q] that by simp
  ultimately have "\<exists>m'. update_state ?m1 opn res qs = Inr m'" by (rule Cons.IH)
  with cur(1) a cur' show ?case by simp
qed

lemma get_qubits_machine:
  assumes "get_qubits m p = Inr qs" "q \<in> set qs"
  shows "\<exists>cur0. map_of (qubits m) (name q) = Some cur0 \<and> xy q = xy cur0"
proof -
  from get_qubits_lookup [OF assms] obtain q0 where
    q0: "get_qubit m (name q) = Inr q0" "q = ensure_GEF q0" by blast
  from q0(1) obtain cur0 where
    cur0: "map_of (qubits m) (name q) = Some cur0" "q0 = cur0\<lparr>name := name q\<rparr>"
    by (auto simp: get_qubit_def split: option.splits)
  have "xy (ensure_GEF q0) = xy q0" by (simp add: ensure_GEF_def)
  moreover have "xy q0 = xy cur0" by (subst cur0(2)) simp
  ultimately have "xy q = xy cur0" by (simp only: q0(2))
  with cur0(1) show ?thesis by blast
qed

lemma fitted_data_ops:
  assumes "fitted_data sq opn qs as prog = Inr d" "q \<in> set qs"
  shows "\<exists>pl. lookup_operation q opn = Inr pl"
proof -
  from assms(1) obtain rows where "abs_amp opn as qs = Inr rows"
    by (auto simp: fitted_data_def split: sum.splits)
  from abs_amp_ops [OF this assms(2)] show ?thesis .
qed

text \<open>
  Claim C5. When the script has reached the analysis, that is outside simulation, with
  the qubits found, the sweep and the program built, the data fetched and the fit
  returned, the node is saved, and in the saved machine every calibrated qubit has the
  operation \<^verbatim>\<open>EF_\<close> + operation with the amplitude that \<^verbatim>\<open>fit_results\<close> holds for the
  qubit: made from the fields of the operation, with the axis angle 0, where the machine
  had none, and the one the machine had with only the amplitude changed otherwise.
\<close>

theorem ef_operation_saved:
  assumes qs: "get_qubits m p = Inr qs"
    and as: "amps p = Inr as"
    and prog: "power_rabi m (operation p) (num_averages p) as qs = Inr prog"
    and sim: "\<not> simulate p"
    and d: "fitted_data sq (operation p) qs as prog = Inr d"
    and fit: "fit_osc d = Inr fit"
  shows "\<exists>nd res. run_node sq m p fit_osc = Inr nd \<and>
     fit_results fit (operation p) qs [] = Inr res \<and>
     (\<forall>q \<in> set qs. \<exists>cur0 cur a pl.
        map_of (qubits m) (name q) = Some cur0 \<and>
        map_of res (name q) = Some a \<and>
        map_of (qubits (saved_machine nd)) (name q) = Some cur \<and>
        map_of (operations (xy cur)) (ef_operation_name (operation p)) = Some pl \<and>
        amplitude pl = a \<and>
        (case map_of (operations (xy cur0)) (ef_operation_name (operation p)) of
           None \<Rightarrow> (\<exists>p0. map_of (operations (xy cur0)) (operation p) = Some p0 \<and>
             pl = \<lparr>amplitude = a, alpha = alpha p0, anharmonicity = anharmonicity p0,
                   length_ns = length_ns p0, axis_angle = 0,
                   digital_marker = digital_marker p0\<rparr>)
         | Some ef0 \<Rightarrow> pl = ef0\<lparr>amplitude := a\<rparr>))"
proof -
  let ?opn = "operation p"
  have has: "map_of (operations (xy q)) ?opn \<noteq> None" if "q \<in> set qs" for q
  proof -
    from fitted_data_ops [OF d that] obtain pl where "lookup_operation q ?opn = Inr pl" by blast
    then show ?thesis by (auto simp: lookup_operation_def split: option.splits)
  qed
  from fit_results_total [OF has] obtain res where
    res: "fit_results fit ?opn qs [] = Inr res" by blast
  have res_q: "map_of res (name q) \<noteq> None" if "q \<in> set qs" for q
  proof -
    have "\<And>q'. q' \<in> set qs \<Longrightarrow> name q' = name q \<Longrightarrow> q' = q"
      using get_qubits_same_name [OF qs _ that] by blast
    from fit_results_entry [OF res that this] show ?thesis by auto
  qed
  have mach: "\<exists>cur. map_of (qubits m) (name q) = Some cur \<and>
      map_of (operations (xy cur)) ?opn \<noteq> None" if "q \<in> set qs" for q
  proof -
    from get_qubits_machine [OF qs that] obtain cur0 where
      "map_of (qubits m) (name q) = Some cur0" "xy q = xy cur0" by blast
    with has [OF that] show ?thesis by simp
  qed
  from update_state_total [OF mach res_q] obtain m' where
    m': "update_state m ?opn res qs = Inr m'" by blast
  let ?nd = "\<lparr>outcomes = fold (\<lambda>q. AList.update (name q) ''successful'') qs [],
             saved_machine = m'\<rparr>"
  have nd: "run_node sq m p fit_osc = Inr ?nd"
    by (simp add: run_node_def qs as prog sim d fit res m')
  have "\<exists>cur0 cur a pl.
        map_of (qubits m) (name q) = Some cur0 \<and>
        map_of res (name q) = Some a \<and>
        map_of (qubits (saved_machine ?nd)) (name q) = Some cur \<and>
        map_of (operations (xy cur)) (ef_operation_name ?opn) = Some pl \<and>
        amplitude pl = a \<and>
        (case map_of (operations (xy cur0)) (ef_operation_name ?opn) of
           None \<Rightarrow> (\<exists>p0. map_of (operations (xy cur0)) ?opn = Some p0 \<and>
             pl = \<lparr>amplitude = a, alpha = alpha p0, anharmonicity = anharmonicity p0,
                   length_ns = length_ns p0, axis_angle = 0,
                   digital_marker = digital_marker p0\<rparr>)
         | Some ef0 \<Rightarrow> pl = ef0\<lparr>amplitude := a\<rparr>)" if "q \<in> set qs" for q
  proof -
    from that have "name q \<in> name ` set qs" by simp
    from update_state_entry [OF m' this] obtain cur0 a cur where
      e: "map_of (qubits m) (name q) = Some cur0" "map_of res (name q) = Some a"
        "update_operation ?opn a cur0 = Inr cur" "map_of (qubits m') (name q) = Some cur"
      by blast
    from update_operation_ef [OF e(3)] obtain pl where
      pl: "map_of (operations (xy cur)) (ef_operation_name ?opn) = Some pl" "amplitude pl = a"
        "(case map_of (operations (xy cur0)) (ef_operation_name ?opn) of
           None \<Rightarrow> (\<exists>p0. map_of (operations (xy cur0)) ?opn = Some p0 \<and>
             pl = \<lparr>amplitude = a, alpha = alpha p0, anharmonicity = anharmonicity p0,
                   length_ns = length_ns p0, axis_angle = 0,
                   digital_marker = digital_marker p0\<rparr>)
         | Some ef0 \<Rightarrow> pl = ef0\<lparr>amplitude := a\<rparr>)"
      by blast
    from e(1,2,4) pl show ?thesis by (intro exI conjI) simp_all
  qed
  with nd res show ?thesis by blast
qed

lemma example_fit_results:
  "fit_results example_fit ''x180'' [example_qubit] [] = Inr [(''q1'', 1 / 20)]"
  by (simp add: new_pi_amp_def example_lookup example_fit_def example_factor Pi_amplitude_def)
    (simp add: example_qubit_def)

lemma example_amps: "amps example_Parameters = Inr [0, 1]"
  by (simp add: amps_def arange_def example_Parameters_def default_Parameters_def
      fl_numerals fl_zero Let_def upt_rec)

lemma example_program:
  "power_rabi example_machine ''x180'' 2 [0, 1] [example_qubit] =
     Inr [For_n 2 [Save_n, For_a [0, 1] (sweep_body example_machine ''x180'' 0 example_qubit)],
          Align]"
  by (simp add: power_rabi_def qubit_block_def from_array_def example_lookup enumerate_simps)

lemma example_abs_amp: "abs_amp ''x180'' [0, 1] [example_qubit] = Inr [[0, 1 / 10]]"
  by (simp add: example_lookup)

lemma example_fitted_data:
  "fitted_data example_sequencer ''x180'' [example_qubit] [0, 1]
     [For_n 2 [Save_n, For_a [0, 1] (sweep_body example_machine ''x180'' 0 example_qubit)],
      Align] =
   Inr \<lparr>da_qubit = [''q1''], da_amp = [0, 1], da_abs_amp = [[0, 1 / 10]],
        da_values = [[5, 10]]\<rparr>"
proof -
  have h: "(0::int) < 2" "[0, 1 :: real] \<noteq> []" by simp_all
  from fitted_data_value [OF h example_abs_amp example_program, of example_sequencer]
  show ?thesis
    by (simp add: example_sequencer_def example_readout_def example_qubit_def
        eval_nat_numeral sqrt_25)
qed

theorem ef_operation_saved_witness:
  "get_qubits example_machine example_Parameters = Inr [example_qubit] \<and>
   amps example_Parameters = Inr [0, 1] \<and>
   power_rabi example_machine (operation example_Parameters)
     (num_averages example_Parameters) [0, 1] [example_qubit] =
     Inr [For_n 2 [Save_n, For_a [0, 1] (sweep_body example_machine ''x180'' 0 example_qubit)],
          Align] \<and>
   \<not> simulate example_Parameters \<and>
   fitted_data example_sequencer (operation example_Parameters) [example_qubit] [0, 1]
     [For_n 2 [Save_n, For_a [0, 1] (sweep_body example_machine ''x180'' 0 example_qubit)],
      Align] =
     Inr \<lparr>da_qubit = [''q1''], da_amp = [0, 1], da_abs_amp = [[0, 1 / 10]],
          da_values = [[5, 10]]\<rparr> \<and>
   example_fit_osc \<lparr>da_qubit = [''q1''], da_amp = [0, 1], da_abs_amp = [[0, 1 / 10]],
          da_values = [[5, 10]]\<rparr> = Inr example_fit \<and>
   (\<exists>nd cur pl. run_node example_sequencer example_machine example_Parameters example_fit_osc =
        Inr nd \<and>
      map_of (qubits (saved_machine nd)) ''q1'' = Some cur \<and>
      map_of (operations (xy cur)) ''EF_x180'' = Some pl \<and>
      pl = \<lparr>amplitude = 1 / 20, alpha = 0, anharmonicity = - 200, length_ns = 40,
            axis_angle = 0, digital_marker = None\<rparr>)"
proof -
  have P: "operation example_Parameters = ''x180''" "num_averages example_Parameters = 2"
    by (simp_all add: example_Parameters_def default_Parameters_def)
  have sim: "\<not> simulate example_Parameters"
    by (simp add: example_Parameters_def default_Parameters_def)
  have prog: "power_rabi example_machine (operation example_Parameters)
     (num_averages example_Parameters) [0, 1] [example_qubit] =
     Inr [For_n 2 [Save_n, For_a [0, 1] (sweep_body example_machine ''x180'' 0 example_qubit)],
          Align]"
    unfolding P by (rule example_program)
  have d: "fitted_data example_sequencer (operation example_Parameters) [example_qubit] [0, 1]
     [For_n 2 [Save_n, For_a [0, 1] (sweep_body example_machine ''x180'' 0 example_qubit)],
      Align] =
     Inr \<lparr>da_qubit = [''q1''], da_amp = [0, 1], da_abs_amp = [[0, 1 / 10]],
          da_values = [[5, 10]]\<rparr>"
    unfolding P by (rule example_fitted_data)
  have fit: "example_fit_osc \<lparr>da_qubit = [''q1''], da_amp = [0, 1], da_abs_amp = [[0, 1 / 10]],
          da_values = [[5, 10]]\<rparr> = Inr example_fit"
    by (simp add: example_fit_osc_def)
  from ef_operation_saved [where fit_osc = example_fit_osc,
      OF example_qubits_node example_amps prog sim d fit, unfolded P]
  obtain nd res where
    nd: "run_node example_sequencer example_machine example_Parameters example_fit_osc = Inr nd"
    and res: "fit_results example_fit ''x180'' [example_qubit] [] = Inr res"
    and all: "\<forall>q \<in> set [example_qubit]. \<exists>cur0 cur a pl.
        map_of (qubits example_machine) (name q) = Some cur0 \<and>
        map_of res (name q) = Some a \<and>
        map_of (qubits (saved_machine nd)) (name q) = Some cur \<and>
        map_of (operations (xy cur)) (ef_operation_name ''x180'') = Some pl \<and>
        amplitude pl = a \<and>
        (case map_of (operations (xy cur0)) (ef_operation_name ''x180'') of
           None \<Rightarrow> (\<exists>p0. map_of (operations (xy cur0)) ''x180'' = Some p0 \<and>
             pl = \<lparr>amplitude = a, alpha = alpha p0, anharmonicity = anharmonicity p0,
                   length_ns = length_ns p0, axis_angle = 0,
                   digital_marker = digital_marker p0\<rparr>)
         | Some ef0 \<Rightarrow> pl = ef0\<lparr>amplitude := a\<rparr>)"
    by blast
  from res have r: "res = [(''q1'', 1 / 20)]" by (simp only: example_fit_results sum.inject)
  have nm: "name example_qubit = ''q1''" by (simp add: example_qubit_def)
  from all have "\<exists>cur0 cur a pl.
        map_of (qubits example_machine) ''q1'' = Some cur0 \<and>
        map_of res ''q1'' = Some a \<and>
        map_of (qubits (saved_machine nd)) ''q1'' = Some cur \<and>
        map_of (operations (xy cur)) (ef_operation_name ''x180'') = Some pl \<and>
        amplitude pl = a \<and>
        (case map_of (operations (xy cur0)) (ef_operation_name ''x180'') of
           None \<Rightarrow> (\<exists>p0. map_of (operations (xy cur0)) ''x180'' = Some p0 \<and>
             pl = \<lparr>amplitude = a, alpha = alpha p0, anharmonicity = anharmonicity p0,
                   length_ns = length_ns p0, axis_angle = 0,
                   digital_marker = digital_marker p0\<rparr>)
         | Some ef0 \<Rightarrow> pl = ef0\<lparr>amplitude := a\<rparr>)"
    by (simp add: nm)
  then obtain cur0 cur a pl where
    c: "map_of (qubits example_machine) ''q1'' = Some cur0"
      "map_of res ''q1'' = Some a"
      "map_of (qubits (saved_machine nd)) ''q1'' = Some cur"
      "map_of (operations (xy cur)) (ef_operation_name ''x180'') = Some pl"
      "(case map_of (operations (xy cur0)) (ef_operation_name ''x180'') of
           None \<Rightarrow> (\<exists>p0. map_of (operations (xy cur0)) ''x180'' = Some p0 \<and>
             pl = \<lparr>amplitude = a, alpha = alpha p0, anharmonicity = anharmonicity p0,
                   length_ns = length_ns p0, axis_angle = 0,
                   digital_marker = digital_marker p0\<rparr>)
         | Some ef0 \<Rightarrow> pl = ef0\<lparr>amplitude := a\<rparr>)"
    by blast
  from c(1) have cur0: "cur0 = example_qubit" by (simp add: example_machine_def)
  from c(2) r have a: "a = 1 / 20" by simp
  from c(5) have "pl = \<lparr>amplitude = 1 / 20, alpha = 0, anharmonicity = - 200, length_ns = 40,
            axis_angle = 0, digital_marker = None\<rparr>"
    unfolding cur0 a by (simp add: example_qubit_def ef_operation_name_def)
  with nd c(3,4) example_qubits_node example_amps prog sim d fit show ?thesis
    by (simp add: ef_operation_name_def)
qed

end
